theory Spec2Isabelle
  imports Complex_Main "HOL-Library.Char_ord" "HOL-Library.List_Lexorder"
begin

section \<open>The document import pipeline of scripts/import-docs.py\<close>

text \<open>
  The script loads documents from a directory of text files or from a JSON file, groups
  them into batches, posts every batch with bounded retries and exponential backoff and
  adds up the counts the service reports. The embedding follows the script function by
  function. Everything the script does to the outside world (file system queries,
  printed lines, HTTP attempts, sleeps) is recorded in a list of events, so that the
  order of effects can be stated; every \<^verbatim>\<open>raise\<close> of the script is a value
  \<open>Inl e\<close>.

  Scope. A Python \<^verbatim>\<open>str\<close> is a \<open>string\<close>; a \<open>char\<close> stands for a code point
  below 256. The exceptions modelled are the ones the script raises itself, and the
  ones that leave \<^verbatim>\<open>urlopen\<close>. The other library calls are modelled where they
  return: files are readable text, the JSON input file and the bodies of successful
  responses parse, and a successful response has the types of the wire contract (every
  field may be missing).
\<close>

subsection \<open>Errors\<close>

type_synonym path = string

text \<open>
  The script raises \<^verbatim>\<open>ValueError\<close> and \<^verbatim>\<open>RuntimeError\<close> with a message. Each
  constructor below is one \<^verbatim>\<open>raise\<close>; its arguments are the values the message is
  formatted from.
\<close>

datatype value_error =
    DelimiterMustNotBeEmpty          \<comment> \<open>line 38\<close>
  | UnsupportedSplitRule string      \<comment> \<open>line 41\<close>
  | EmptyDocument path               \<comment> \<open>line 49\<close>
  | InputDirectoryNotFound path      \<comment> \<open>line 63\<close>
  | NoTxtOrMdFilesFound path         \<comment> \<open>line 69\<close>
  | InputFileNotFound path           \<comment> \<open>line 75\<close>
  | ExpectedDocumentsArray           \<comment> \<open>line 81\<close>
  | BatchSizeMustBePositive          \<comment> \<open>line 86\<close>

datatype runtime_error =
    HTTPFailure int string           \<comment> \<open>line 108: status code and decoded body\<close>
  | RequestFailed string             \<comment> \<open>line 113: the cause of the URLError\<close>
  | RequestFailedAfterRetries        \<comment> \<open>line 114\<close>

text \<open>
  \<open>LibraryException\<close> is an exception that \<^verbatim>\<open>urlopen\<close> raises and the script does
  not catch, by the name of its class; it leaves \<open>post_json\<close> and \<open>main\<close> as it is.
\<close>

datatype error =
    ValueError value_error
  | RuntimeError runtime_error
  | LibraryException string

subsection \<open>BatchPlanner: chunked\<close>

text \<open>
  \<^verbatim>\<open>range(i, n, step)\<close> for a positive step, as the list of its values. The script
  only reaches it with a positive step (line 85 raises otherwise).
\<close>

function range_step :: "nat \<Rightarrow> nat \<Rightarrow> nat \<Rightarrow> nat list" where
  "range_step i n step =
     (if 0 < step \<and> i < n then i # range_step (i + step) n step else [])"
  by pat_completeness auto
termination
  by (relation "measure (\<lambda>(i, n, step). n - i)") auto

declare range_step.simps [simp del]

text \<open>The slice \<^verbatim>\<open>items[i : i + sz]\<close> for \<open>0 \<le> i\<close> and \<open>0 \<le> sz\<close>.\<close>

definition slice :: "'a list \<Rightarrow> nat \<Rightarrow> nat \<Rightarrow> 'a list" where
  "slice items i sz = take sz (drop i items)"

definition chunked :: "'a list \<Rightarrow> int \<Rightarrow> error + 'a list list" where
  "chunked items sz =
     (if sz \<le> 0 then Inl (ValueError BatchSizeMustBePositive)
      else Inr (map (\<lambda>i. slice items i (nat sz)) (range_step 0 (length items) (nat sz))))"

subsection \<open>Documents\<close>

text \<open>
  A document built from a text file is the dictionary of lines 50 to 58. A document
  taken from the JSON input file is whatever JSON value stands in the list: the script
  never looks inside it.
\<close>

datatype json =
    JNull
  | JBool bool
  | JInt int
  | JFloat rat
  | JStr string
  | JArr "json list"
  | JObj "(string \<times> json) list"

datatype para = Paragraph (position: nat) (body: string) (para_languageCode: string)

datatype document =
    Document (title: string) (languageCode: string) (paragraphs: "para list")
      (publish: bool)
  | OpaqueDocument json

subsection \<open>Effects\<close>

text \<open>The lines the script prints (lines 128, 141, 145 and 146), by their values.\<close>

datatype line =
    LoadedLine nat                    \<comment> \<open>loaded n documents\<close>
  | BatchLine nat nat int int         \<comment> \<open>batch idx/count: created=c failed=f\<close>
  | ItemLine "int option" string      \<comment> \<open>index=i: error\<close>
  | DoneLine int int                  \<comment> \<open>done: created=c failed=f\<close>

datatype event =
    IsDir path                        \<comment> \<open>\<^verbatim>\<open>path.is_dir()\<close>\<close>
  | IsFile path                       \<comment> \<open>\<^verbatim>\<open>path.is_file()\<close>\<close>
  | IterDir path                      \<comment> \<open>\<^verbatim>\<open>path.iterdir()\<close>\<close>
  | ReadText path                     \<comment> \<open>\<^verbatim>\<open>path.read_text(encoding="utf-8")\<close>\<close>
  | Print line
  | UrlOpen string string "document list"
      \<comment> \<open>one \<^verbatim>\<open>urlopen\<close> call: the URL, the bearer token, the documents posted\<close>
  | Sleep rat                         \<comment> \<open>\<^verbatim>\<open>time.sleep\<close>, in seconds\<close>

text \<open>
  A computation is the list of its effects, in order, with its result. \<open>after\<close> puts
  effects that happened earlier in front of a computation.
\<close>

type_synonym 'a io = "event list \<times> (error + 'a)"

definition after :: "event list \<Rightarrow> 'a io \<Rightarrow> 'a io" where
  "after evs c = (evs @ fst c, snd c)"

subsection \<open>TransportClient: post_json\<close>

text \<open>
  The parsed body of a successful response, with the types of the wire contract; a key
  the body does not have is \<open>None\<close>.
\<close>

record item =
  index :: "int option"
  error :: "string option"

record batch_result =
  created :: "int option"
  failed :: "int option"
  results :: "item list option"

text \<open>
  What one \<^verbatim>\<open>urlopen\<close> call does: it returns a response whose body parses; it
  raises \<^verbatim>\<open>HTTPError\<close> with a status code and a body; it raises \<^verbatim>\<open>URLError\<close>
  with a cause (the request could not be sent); or it raises another exception.
  \<^verbatim>\<open>urllib\<close> wraps in \<^verbatim>\<open>URLError\<close> only what goes wrong while the request is
  sent. When the request has been sent and no response arrives (the read times out, the
  server closes or resets the connection), the exception of the socket or of
  \<^verbatim>\<open>http.client\<close> leaves \<^verbatim>\<open>urlopen\<close> as it is: \<^verbatim>\<open>TimeoutError\<close>,
  \<^verbatim>\<open>RemoteDisconnected\<close>, \<^verbatim>\<open>ConnectionResetError\<close>. \<open>OtherFailure\<close> carries the name
  of its class. The network is given as the outcome of each attempt, by the attempt's
  number.
\<close>

datatype outcome =
    Response batch_result
  | HTTPError int string
  | URLError string
  | OtherFailure string

definition retryable :: "int \<Rightarrow> bool" where
  "retryable code = (code \<in> {429, 500, 502, 503, 504})"

text \<open>
  Line 105 and line 111: \<^verbatim>\<open>0.5 * (2**attempt)\<close> seconds. The product is a power of
  two, which the floating point arithmetic of the script represents without rounding.
\<close>

definition backoff :: "nat \<Rightarrow> rat" where
  "backoff attempt = 1 / 2 * 2 ^ attempt"

text \<open>\<^verbatim>\<open>range(n)\<close>: empty when \<open>n \<le> 0\<close>.\<close>

definition py_range :: "int \<Rightarrow> nat list" where
  "py_range n = [0..<nat n]"

text \<open>
  The \<^verbatim>\<open>for\<close> loop of lines 97 to 113 over the attempt numbers still to come;
  when they run out, line 114 raises. The two \<^verbatim>\<open>except\<close> clauses catch
  \<^verbatim>\<open>HTTPError\<close> and \<^verbatim>\<open>URLError\<close>; any other exception ends the loop and leaves the
  function.
\<close>

fun post_json_attempts ::
  "(nat \<Rightarrow> outcome) \<Rightarrow> string \<Rightarrow> string \<Rightarrow> document list \<Rightarrow> int \<Rightarrow> nat list \<Rightarrow> batch_result io"
where
  "post_json_attempts net url token payload retries [] =
     ([], Inl (RuntimeError RequestFailedAfterRetries))"
| "post_json_attempts net url token payload retries (attempt # rest) =
     (case net attempt of
        Response r \<Rightarrow> ([UrlOpen url token payload], Inr r)
      | HTTPError code details \<Rightarrow>
          if retryable code \<and> int attempt < retries then
            after [UrlOpen url token payload, Sleep (backoff attempt)]
              (post_json_attempts net url token payload retries rest)
          else ([UrlOpen url token payload], Inl (RuntimeError (HTTPFailure code details)))
      | URLError reason \<Rightarrow>
          if int attempt < retries then
            after [UrlOpen url token payload, Sleep (backoff attempt)]
              (post_json_attempts net url token payload retries rest)
          else ([UrlOpen url token payload], Inl (RuntimeError (RequestFailed reason)))
      | OtherFailure exc \<Rightarrow> ([UrlOpen url token payload], Inl (LibraryException exc)))"

definition post_json ::
  "(nat \<Rightarrow> outcome) \<Rightarrow> string \<Rightarrow> string \<Rightarrow> document list \<Rightarrow> int \<Rightarrow> batch_result io"
where
  "post_json net url token payload retries =
     post_json_attempts net url token payload retries (py_range (retries + 1))"

text \<open>
  Two notions for stating what \<open>post_json\<close> does. \<open>retried url token payload a n\<close>
  is what \<open>n\<close> attempts in a row, numbered from \<open>a\<close>, leave behind when each of
  them is followed by its backoff sleep. An outcome is transient when it is an HTTP error
  with one of the five statuses 429, 500, 502, 503 and 504, or a \<^verbatim>\<open>URLError\<close>.
\<close>

definition retried :: "string \<Rightarrow> string \<Rightarrow> document list \<Rightarrow> nat \<Rightarrow> nat \<Rightarrow> event list" where
  "retried url token payload a n =
     concat (map (\<lambda>k. [UrlOpen url token payload, Sleep (1 / 2 * 2 ^ k)]) [a..<a + n])"

definition transient :: "outcome \<Rightarrow> bool" where
  "transient out =
     (case out of
        Response r \<Rightarrow> False
      | HTTPError code details \<Rightarrow> code \<in> {429, 500, 502, 503, 504}
      | URLError reason \<Rightarrow> True
      | OtherFailure exc \<Rightarrow> False)"

subsection \<open>ParagraphSplitter: split_paragraphs\<close>

text \<open>
  The white space of \<^verbatim>\<open>str.strip()\<close> and of \<^verbatim>\<open>\s\<close> in a \<^verbatim>\<open>str\<close> pattern, among
  the code points below 256: tab to carriage return, the four separators 28 to 31, the
  space, NEL and the no-break space.
\<close>

definition isspace :: "char \<Rightarrow> bool" where
  "isspace c = (of_char c \<in> {9, 10, 11, 12, 13, 28, 29, 30, 31, 32, 133, 160 :: nat})"

definition newline :: char where
  "newline = CHR 0x0A"

definition strip :: "string \<Rightarrow> string" where
  "strip s = rev (dropWhile isspace (rev (dropWhile isspace s)))"

text \<open>
  The pattern of line 33 is a newline, then \<^verbatim>\<open>\s*\<close>, then \<^verbatim>\<open>\n+\<close>, both greedy.
  \<open>newlines s\<close> is what \<^verbatim>\<open>\n+\<close> takes at the start of \<open>s\<close>. \<open>backtrack r e\<close> is the
  search of the matcher after the first newline, on the rest \<open>r\<close> of the text: it lets
  \<^verbatim>\<open>\s*\<close> take \<open>e\<close> characters, and gives one back at a time until \<^verbatim>\<open>\n+\<close>
  matches behind it; it returns the number of characters matched in \<open>r\<close>.
  \<open>match_blank s\<close> is the length of the match of the whole pattern at the start of
  \<open>s\<close>, if there is one.
\<close>

definition newlines :: "string \<Rightarrow> nat" where
  "newlines s = length (takeWhile (\<lambda>c. c = newline) s)"

fun backtrack :: "string \<Rightarrow> nat \<Rightarrow> nat option" where
  "backtrack r 0 = (if 0 < newlines r then Some (newlines r) else None)"
| "backtrack r (Suc e) =
     (if 0 < newlines (drop (Suc e) r) then Some (Suc e + newlines (drop (Suc e) r))
      else backtrack r e)"

fun match_blank :: "string \<Rightarrow> nat option" where
  "match_blank [] = None"
| "match_blank (c # r) =
     (if c = newline then map_option Suc (backtrack r (length (takeWhile isspace r)))
      else None)"

text \<open>
  \<^verbatim>\<open>re.split\<close> with that pattern: the pieces of the text between the matches, found
  from left to right. \<open>cur\<close> is the piece read so far.
\<close>

fun re_split :: "string \<Rightarrow> string \<Rightarrow> string list" where
  "re_split cur [] = [cur]"
| "re_split cur (c # r) =
     (case match_blank (c # r) of
        Some n \<Rightarrow> cur # re_split [] (drop (n - 1) r)
      | None \<Rightarrow> re_split (cur @ [c]) r)"

definition startswith :: "string \<Rightarrow> string \<Rightarrow> bool" where
  "startswith s p = (take (length p) s = p)"

text \<open>
  \<^verbatim>\<open>str.split(sep)\<close> for a separator that is not empty: the pieces between the
  occurrences of \<open>sep\<close>, found from left to right.
\<close>

fun str_split :: "string \<Rightarrow> string \<Rightarrow> string \<Rightarrow> string list" where
  "str_split sep cur [] = [cur]"
| "str_split sep cur (c # r) =
     (if sep \<noteq> [] \<and> startswith (c # r) sep
      then cur # str_split sep [] (drop (length sep - 1) r)
      else str_split sep (cur @ [c]) r)"

definition split_paragraphs :: "string \<Rightarrow> string \<Rightarrow> error + string list" where
  "split_paragraphs content mode =
     (if mode = ''blankline'' then
        Inr (map strip (filter (\<lambda>part. strip part \<noteq> []) (re_split [] content)))
      else if startswith mode ''delimiter:'' then
        (let delimiter = drop (length ''delimiter:'') mode in
         if delimiter = [] then Inl (ValueError DelimiterMustNotBeEmpty)
         else Inr (map strip (filter (\<lambda>part. strip part \<noteq> []) (str_split delimiter [] content))))
      else Inl (ValueError (UnsupportedSplitRule mode)))"

text \<open>
  For stating that segments keep the order of the text: \<open>in_order segs s\<close> holds when
  the segments can be found in \<open>s\<close> one after the other, each one starting where the one
  before it has ended or later.
\<close>

fun in_order :: "string list \<Rightarrow> string \<Rightarrow> bool" where
  "in_order [] s = True"
| "in_order (seg # segs) s =
     (\<exists>k \<in> {0..length s}. take (length seg) (drop k s) = seg \<and>
        in_order segs (drop (k + length seg) s))"

subsection \<open>DocumentLoader\<close>

text \<open>
  The file system, as far as the script asks: what stands at a path. A regular file has
  its text; a directory has the names of its entries, in the order \<^verbatim>\<open>iterdir\<close>
  yields them; anything else that exists (a socket, a device) is \<open>Special\<close>.
\<close>

datatype node = Missing | File string | Directory "string list" | Special

type_synonym filesystem = "path \<Rightarrow> node"

definition is_dir :: "filesystem \<Rightarrow> path \<Rightarrow> bool" where
  "is_dir fs p = (case fs p of Directory names \<Rightarrow> True | _ \<Rightarrow> False)"

definition is_file :: "filesystem \<Rightarrow> path \<Rightarrow> bool" where
  "is_file fs p = (case fs p of File content \<Rightarrow> True | _ \<Rightarrow> False)"

definition read_text :: "filesystem \<Rightarrow> path \<Rightarrow> string" where
  "read_text fs p = (case fs p of File content \<Rightarrow> content | _ \<Rightarrow> [])"

definition listdir :: "filesystem \<Rightarrow> path \<Rightarrow> string list" where
  "listdir fs p = (case fs p of Directory names \<Rightarrow> names | _ \<Rightarrow> [])"

text \<open>
  \<^verbatim>\<open>pathlib\<close>: the path of an entry of a directory, the last component of a path,
  and its \<^verbatim>\<open>suffix\<close> and \<^verbatim>\<open>stem\<close>. The suffix starts at the last dot of the name,
  unless that dot is the first or the last character of the name.
\<close>

definition joinpath :: "path \<Rightarrow> string \<Rightarrow> path" where
  "joinpath d n = d @ ''/'' @ n"

definition path_name :: "path \<Rightarrow> string" where
  "path_name p = rev (takeWhile (\<lambda>c. c \<noteq> CHR ''/'') (rev p))"

definition rfind_dot :: "string \<Rightarrow> nat option" where
  "rfind_dot n =
     (let k = length (takeWhile (\<lambda>c. c \<noteq> CHR ''.'') (rev n))
      in if k = length n then None else Some (length n - 1 - k))"

definition suffix :: "path \<Rightarrow> string" where
  "suffix p =
     (let n = path_name p
      in case rfind_dot n of
           Some i \<Rightarrow> if 0 < i \<and> i < length n - 1 then drop i n else []
         | None \<Rightarrow> [])"

definition stem :: "path \<Rightarrow> string" where
  "stem p =
     (let n = path_name p
      in case rfind_dot n of
           Some i \<Rightarrow> if 0 < i \<and> i < length n - 1 then take i n else n
         | None \<Rightarrow> n)"

text \<open>\<^verbatim>\<open>str.lower()\<close> on code points below 256.\<close>

definition lower_char :: "char \<Rightarrow> char" where
  "lower_char c =
     (let n = (of_char c :: nat)
      in if (65 \<le> n \<and> n \<le> 90) \<or> (192 \<le> n \<and> n \<le> 222 \<and> n \<noteq> 215)
         then char_of (n + 32) else c)"

definition lower :: "string \<Rightarrow> string" where
  "lower s = map lower_char s"

text \<open>Lines 45 to 58.\<close>

definition build_doc_from_text ::
  "filesystem \<Rightarrow> path \<Rightarrow> string \<Rightarrow> string \<Rightarrow> document io"
where
  "build_doc_from_text fs p language_code split_mode =
     (let content = read_text fs p
      in case split_paragraphs content split_mode of
           Inl e \<Rightarrow> ([ReadText p], Inl e)
         | Inr paras \<Rightarrow>
             if paras = [] then ([ReadText p], Inl (ValueError (EmptyDocument p)))
             else ([ReadText p],
                   Inr (Document (stem p) language_code
                          (map (\<lambda>(idx, b). Paragraph idx b language_code) (enumerate 0 paras))
                          True)))"

text \<open>
  The loop of lines 65 to 67 over the sorted entries still to come; \<open>docs\<close> is the list
  built so far.
\<close>

fun load_entries ::
  "filesystem \<Rightarrow> string \<Rightarrow> string \<Rightarrow> path list \<Rightarrow> document list \<Rightarrow> document list io"
where
  "load_entries fs language_code split_mode [] docs = ([], Inr docs)"
| "load_entries fs language_code split_mode (entry # rest) docs =
     (if is_file fs entry \<and> lower (suffix entry) \<in> {''.txt'', ''.md''} then
        (case build_doc_from_text fs entry language_code split_mode of
           (evs, Inl e) \<Rightarrow> (IsFile entry # evs, Inl e)
         | (evs, Inr doc) \<Rightarrow>
             after (IsFile entry # evs)
               (load_entries fs language_code split_mode rest (docs @ [doc])))
      else after [IsFile entry] (load_entries fs language_code split_mode rest docs))"

text \<open>
  Lines 61 to 70. The entries of one directory are ordered by their names, which
  \<^verbatim>\<open>sorted\<close> compares code point by code point.
\<close>

definition load_documents_from_dir ::
  "filesystem \<Rightarrow> path \<Rightarrow> string \<Rightarrow> string \<Rightarrow> document list io"
where
  "load_documents_from_dir fs p language_code split_mode =
     (if \<not> is_dir fs p then ([IsDir p], Inl (ValueError (InputDirectoryNotFound p)))
      else
        (case load_entries fs language_code split_mode
                (map (joinpath p) (sort (listdir fs p))) [] of
           (evs, Inl e) \<Rightarrow> (IsDir p # IterDir p # evs, Inl e)
         | (evs, Inr docs) \<Rightarrow>
             if docs = [] then (IsDir p # IterDir p # evs, Inl (ValueError (NoTxtOrMdFilesFound p)))
             else (IsDir p # IterDir p # evs, Inr docs)))"

text \<open>
  Lines 73 to 81. \<^verbatim>\<open>json.loads\<close> is a parameter: how a text parses is not part of the
  script.
\<close>

definition load_documents_from_json ::
  "(string \<Rightarrow> json) \<Rightarrow> filesystem \<Rightarrow> path \<Rightarrow> document list io"
where
  "load_documents_from_json json_loads fs p =
     (if \<not> is_file fs p then ([IsFile p], Inl (ValueError (InputFileNotFound p)))
      else
        (case json_loads (read_text fs p) of
           JArr xs \<Rightarrow> ([IsFile p, ReadText p], Inr (map OpaqueDocument xs))
         | JObj kvs \<Rightarrow>
             (case map_of kvs ''documents'' of
                Some (JArr xs) \<Rightarrow> ([IsFile p, ReadText p], Inr (map OpaqueDocument xs))
              | _ \<Rightarrow> ([IsFile p, ReadText p], Inl (ValueError ExpectedDocumentsArray)))
         | _ \<Rightarrow> ([IsFile p, ReadText p], Inl (ValueError ExpectedDocumentsArray))))"

subsection \<open>Orchestrator: main\<close>

text \<open>The parsed command line (lines 13 to 28).\<close>

datatype fmt = FmtDir | FmtJson

record args =
  arg_base_url :: string
  arg_token :: string
  arg_input :: path
  arg_language_code :: string
  arg_batch_size :: int
  arg_retries :: int
  arg_format :: "fmt option"
  arg_split :: string
  arg_dry_run :: bool

text \<open>Lines 119 to 126: the format is resolved, then the documents are loaded.\<close>

definition load_documents ::
  "(string \<Rightarrow> json) \<Rightarrow> filesystem \<Rightarrow> args \<Rightarrow> document list io"
where
  "load_documents json_loads fs a =
     (let input_path = arg_input a
      in case arg_format a of
           Some FmtDir \<Rightarrow>
             load_documents_from_dir fs input_path (arg_language_code a) (arg_split a)
         | Some FmtJson \<Rightarrow> load_documents_from_json json_loads fs input_path
         | None \<Rightarrow>
             if is_dir fs input_path then
               after [IsDir input_path]
                 (load_documents_from_dir fs input_path (arg_language_code a) (arg_split a))
             else after [IsDir input_path] (load_documents_from_json json_loads fs input_path))"

text \<open>Lines 143 to 145: one line for every item with an error that is not empty.\<close>

definition item_lines :: "item list \<Rightarrow> event list" where
  "item_lines items =
     concat (map (\<lambda>it. case error it of
                          Some e \<Rightarrow> if e \<noteq> [] then [Print (ItemLine (index it) e)] else []
                        | None \<Rightarrow> []) items)"

text \<open>
  \<^verbatim>\<open>int(result.get(key, 0))\<close> for a count and \<^verbatim>\<open>result.get("results", [])\<close>: the
  default stands in for a key that is missing.
\<close>

definition get_int :: "int option \<Rightarrow> int" where
  "get_int v = (case v of Some n \<Rightarrow> n | None \<Rightarrow> 0)"

definition get_list :: "'a list option \<Rightarrow> 'a list" where
  "get_list v = (case v of Some xs \<Rightarrow> xs | None \<Rightarrow> [])"

definition rstrip_slash :: "string \<Rightarrow> string" where
  "rstrip_slash s = rev (dropWhile (\<lambda>c. c = CHR ''/'') (rev s))"

text \<open>
  The loop of lines 134 to 145 over the numbered batches still to come. The network
  gives the outcome of every attempt of every batch, by the number of the batch (from 1)
  and the number of the attempt (from 0). The result is the two totals.
\<close>

fun send_batches ::
  "(nat \<Rightarrow> nat \<Rightarrow> outcome) \<Rightarrow> string \<Rightarrow> string \<Rightarrow> int \<Rightarrow> nat \<Rightarrow>
   (nat \<times> document list) list \<Rightarrow> int \<Rightarrow> int \<Rightarrow> (int \<times> int) io"
where
  "send_batches net url token retries n [] total_created total_failed =
     ([], Inr (total_created, total_failed))"
| "send_batches net url token retries n ((idx, batch) # rest) total_created total_failed =
     (case post_json (net idx) url token batch retries of
        (evs, Inl e) \<Rightarrow> (evs, Inl e)
      | (evs, Inr result) \<Rightarrow>
          (let c = get_int (created result);
               f = get_int (failed result)
           in after (evs @ [Print (BatchLine idx n c f)] @
                     (if f \<noteq> 0 then item_lines (get_list (results result)) else []))
                (send_batches net url token retries n rest
                   (total_created + c) (total_failed + f))))"

text \<open>Lines 117 to 147.\<close>

definition main ::
  "(string \<Rightarrow> json) \<Rightarrow> filesystem \<Rightarrow> (nat \<Rightarrow> nat \<Rightarrow> outcome) \<Rightarrow> args \<Rightarrow> int io"
where
  "main json_loads fs net a =
     (case load_documents json_loads fs a of
        (evs, Inl e) \<Rightarrow> (evs, Inl e)
      | (evs, Inr documents) \<Rightarrow>
          if arg_dry_run a then (evs @ [Print (LoadedLine (length documents))], Inr 0)
          else
            (case chunked documents (arg_batch_size a) of
               Inl e \<Rightarrow> (evs, Inl e)
             | Inr batches \<Rightarrow>
                 (let url = rstrip_slash (arg_base_url a) @ ''/v1/documents:batch''
                  in case send_batches net url (arg_token a) (arg_retries a) (length batches)
                            (enumerate 1 batches) 0 0 of
                       (evs', Inl e) \<Rightarrow> (evs @ evs', Inl e)
                     | (evs', Inr (total_created, total_failed)) \<Rightarrow>
                         (evs @ evs' @ [Print (DoneLine total_created total_failed)],
                          Inr (if total_failed = 0 then 0 else 1)))))"

text \<open>
  Line 151: \<^verbatim>\<open>sys.exit(main())\<close>. The status of the process is the value \<open>main\<close>
  returns; when an exception leaves \<open>main\<close>, nothing catches it, and the interpreter
  prints the traceback and ends with status 1.
\<close>

definition exit_status :: "int io \<Rightarrow> int" where
  "exit_status run = (case snd run of Inr status \<Rightarrow> status | Inl e \<Rightarrow> 1)"

text \<open>
  The error classes of section 7 of the specification, by the conditions it lists for
  each. The script itself has no such classes: the first three are \<^verbatim>\<open>ValueError\<close>,
  the last is \<^verbatim>\<open>RuntimeError\<close>. The specification names no class for a missing JSON
  input file; it is put with the missing directory. An exception of a library that
  leaves the script is in none of the four classes.
\<close>

datatype error_class =
  ConfigurationError | ValidationError | FormatError | TransportError | Unclassified

fun spec_class :: "error \<Rightarrow> error_class" where
  "spec_class (ValueError BatchSizeMustBePositive) = ConfigurationError"
| "spec_class (ValueError (UnsupportedSplitRule m)) = ConfigurationError"
| "spec_class (ValueError DelimiterMustNotBeEmpty) = ConfigurationError"
| "spec_class (ValueError (InputDirectoryNotFound p)) = ValidationError"
| "spec_class (ValueError (NoTxtOrMdFilesFound p)) = ValidationError"
| "spec_class (ValueError (EmptyDocument p)) = ValidationError"
| "spec_class (ValueError (InputFileNotFound p)) = ValidationError"
| "spec_class (ValueError ExpectedDocumentsArray) = FormatError"
| "spec_class (RuntimeError e) = TransportError"
| "spec_class (LibraryException exc) = Unclassified"

text \<open>
  For stating what a run adds up and prints: a count of a response, 0 when the response
  does not have it.
\<close>

definition count_or_zero :: "int option \<Rightarrow> int" where
  "count_or_zero v = (case v of None \<Rightarrow> 0 | Some n \<Rightarrow> n)"

text \<open>
  What one batch leaves behind when \<open>sent\<close> are the effects of its attempts and
  \<open>res\<close> is its response: the attempts, the batch line, and the item lines unless the
  response has no \<open>failed\<close> count or the count 0.
\<close>

definition batch_events :: "event list \<Rightarrow> nat \<Rightarrow> nat \<Rightarrow> batch_result \<Rightarrow> event list" where
  "batch_events sent idx n res =
     sent @ [Print (BatchLine idx n (count_or_zero (created res)) (count_or_zero (failed res)))] @
     (if failed res = None \<or> failed res = Some 0 then []
      else item_lines (get_list (results res)))"


text \<open>The kinds of events: queries to the file system, and traffic with the service.\<close>

definition is_fs :: "event \<Rightarrow> bool" where
  "is_fs ev = (case ev of IsDir p \<Rightarrow> True | IsFile p \<Rightarrow> True | IterDir p \<Rightarrow> True
                 | ReadText p \<Rightarrow> True | _ \<Rightarrow> False)"

text \<open>
  A file of a directory that the loader takes (line 66), and one that splits into no
  paragraph at all.
\<close>

definition matching :: "filesystem \<Rightarrow> path \<Rightarrow> bool" where
  "matching fs entry = (is_file fs entry \<and> lower (suffix entry) \<in> {''.txt'', ''.md''})"

definition zero_paragraphs :: "filesystem \<Rightarrow> string \<Rightarrow> path \<Rightarrow> bool" where
  "zero_paragraphs fs split_mode entry =
     (split_paragraphs (read_text fs entry) split_mode = Inr [])"

definition is_network :: "event \<Rightarrow> bool" where
  "is_network ev = (case ev of UrlOpen url token payload \<Rightarrow> True | Sleep d \<Rightarrow> True | _ \<Rightarrow> False)"

subsection \<open>Example runs\<close>

text \<open>
  Concrete inputs at which the properties below are evaluated. \<open>net503\<close> is the
  scenario of three 503 responses followed by a success; \<open>net404\<close> is a refused
  connection followed by a 404.
\<close>

definition net503 :: "nat \<Rightarrow> outcome" where
  "net503 j = (if j < 3 then HTTPError 503 ''busy''
     else Response \<lparr>created = Some 1, failed = Some 0, results = Some []\<rparr>)"

definition net404 :: "nat \<Rightarrow> outcome" where
  "net404 j = (if j < 1 then URLError ''refused'' else HTTPError 404 ''not found'')"

text \<open>
  \<open>net_busy\<close> answers 503, then 500, then 429 for ever. \<open>net_dropped\<close> is a server that
  takes the first request and closes the connection without an answer, and accepts the
  batch when it is asked again.
\<close>

definition net_busy :: "nat \<Rightarrow> outcome" where
  "net_busy j =
     (if j = 0 then HTTPError 503 ''busy''
      else if j = 1 then HTTPError 500 ''broken'' else HTTPError 429 ''slow down'')"

definition net_dropped :: "nat \<Rightarrow> outcome" where
  "net_dropped j =
     (if j = 0 then OtherFailure ''RemoteDisconnected''
      else Response \<lparr>created = Some 1, failed = Some 0, results = Some []\<rparr>)"

text \<open>
  A file system: the directory \<open>docs\<close> of the scenario (a text file of two paragraphs,
  a markdown file of one, and a subdirectory), a directory whose only text file is blank,
  a directory without text files, and a JSON file.
\<close>

definition fs_example :: filesystem where
  "fs_example p =
     (if p = ''docs'' then Directory [''sub'', ''b.md'', ''a.txt'']
      else if p = ''docs/a.txt'' then File (''Hello'' @ [newline, newline] @ ''World'')
      else if p = ''docs/b.md'' then File ''One''
      else if p = ''docs/sub'' then Directory []
      else if p = ''blank'' then Directory [''x.TXT'']
      else if p = ''blank/x.TXT'' then File ''  ''
      else if p = ''other'' then Directory [''.txt'', ''readme'']
      else if p = ''other/.txt'' then File ''hidden''
      else if p = ''other/readme'' then File ''read me''
      else if p = ''docs.json'' then File ''[1, 2]''
      else Missing)"

text \<open>A parser that reads every text as the list of the two documents 1 and 2.\<close>

definition loads_example :: "string \<Rightarrow> json" where
  "loads_example s = JArr [JInt 1, JInt 2]"

text \<open>
  Command lines: the scenario (the directory \<open>docs\<close>, batches of ten), the same with a
  batch size of zero, with and without \<^verbatim>\<open>--dry-run\<close>, the same with a split rule
  that does not exist and with an empty delimiter, a run on the JSON file, and a run on a
  directory that does not exist.
\<close>

definition args_example :: args where
  "args_example =
     \<lparr>arg_base_url = ''http://localhost:8080/'', arg_token = ''jwt'', arg_input = ''docs'',
      arg_language_code = ''en-US'', arg_batch_size = 10, arg_retries = 3,
      arg_format = None, arg_split = ''blankline'', arg_dry_run = False\<rparr>"

definition args_zero :: args where
  "args_zero = args_example\<lparr>arg_batch_size := 0\<rparr>"

definition args_zero_dry :: args where
  "args_zero_dry = args_example\<lparr>arg_batch_size := 0, arg_dry_run := True\<rparr>"

definition args_para :: args where
  "args_para = args_example\<lparr>arg_split := ''para''\<rparr>"

definition args_delimiter :: args where
  "args_delimiter = args_example\<lparr>arg_split := ''delimiter:''\<rparr>"


definition args_nowhere :: args where
  "args_nowhere = args_example\<lparr>arg_input := ''nowhere'', arg_format := Some FmtDir\<rparr>"

text \<open>
  Services: one that accepts everything, and one that reports a negative count of
  failures.
\<close>

definition net_ok :: "nat \<Rightarrow> nat \<Rightarrow> outcome" where
  "net_ok idx attempt = Response \<lparr>created = Some 2, failed = Some 0, results = Some []\<rparr>"

definition net_negative :: "nat \<Rightarrow> nat \<Rightarrow> outcome" where
  "net_negative idx attempt = Response \<lparr>created = Some 2, failed = Some (- 1), results = Some []\<rparr>"

text \<open>
  What the scenario loads, the file system queries of its load phase, and the URL it
  posts to.
\<close>

definition docs_example :: "document list" where
  "docs_example =
     [Document ''a'' ''en-US''
        [Paragraph 0 ''Hello'' ''en-US'', Paragraph 1 ''World'' ''en-US''] True,
      Document ''b'' ''en-US'' [Paragraph 0 ''One'' ''en-US''] True]"

definition load_events_example :: "event list" where
  "load_events_example =
     [IsDir ''docs'', IsDir ''docs'', IterDir ''docs'', IsFile ''docs/a.txt'',
      ReadText ''docs/a.txt'', IsFile ''docs/b.md'', ReadText ''docs/b.md'',
      IsFile ''docs/sub'']"

definition url_example :: string where
  "url_example = ''http://localhost:8080/v1/documents:batch''"

text \<open>A service that accepts one document of a batch and rejects one.\<close>

definition result_partial :: batch_result where
  "result_partial =
     \<lparr>created = Some 1, failed = Some 1,
      results = Some [\<lparr>index = Some 1, error = Some ''malformed''\<rparr>]\<rparr>"

definition net_partial :: "nat \<Rightarrow> nat \<Rightarrow> outcome" where
  "net_partial idx attempt = Response result_partial"

text \<open>A service whose response has neither count but lists an item with an error.\<close>

definition result_omits :: batch_result where
  "result_omits =
     \<lparr>created = None, failed = None,
      results = Some [\<lparr>index = Some 1, error = Some ''rejected''\<rparr>]\<rparr>"

definition net_omits :: "nat \<Rightarrow> nat \<Rightarrow> outcome" where
  "net_omits idx attempt = Response result_omits"

text \<open>
  A run of two batches of one document each: the service rejects the document of the
  first batch, and answers the second batch without counts but with an item that has an
  error.
\<close>

definition args_single :: args where
  "args_single = args_example\<lparr>arg_batch_size := 1\<rparr>"

definition batches_example :: "document list list" where
  "batches_example =
     [[Document ''a'' ''en-US''
         [Paragraph 0 ''Hello'' ''en-US'', Paragraph 1 ''World'' ''en-US''] True],
      [Document ''b'' ''en-US'' [Paragraph 0 ''One'' ''en-US''] True]]"

definition result_mixed :: "nat \<Rightarrow> batch_result" where
  "result_mixed idx = (if idx = 1 then result_partial else result_omits)"

definition net_mixed :: "nat \<Rightarrow> nat \<Rightarrow> outcome" where
  "net_mixed idx attempt = Response (result_mixed idx)"

definition sent_example :: "nat \<Rightarrow> event list" where
  "sent_example idx = [UrlOpen url_example ''jwt'' (batches_example ! (idx - 1))]"

section \<open>Properties\<close>

subsection \<open>chunked\<close>

lemma range_step_Nil: "n \<le> i \<Longrightarrow> range_step i n s = []"
  by (simp add: range_step.simps)

lemma range_step_Cons:
  "0 < s \<Longrightarrow> i < n \<Longrightarrow> range_step i n s = i # range_step (i + s) n s"
  by (subst range_step.simps) simp

lemma concat_chunks:
  "0 < s \<Longrightarrow> i \<le> length xs \<Longrightarrow>
   concat (map (\<lambda>j. slice xs j s) (range_step i (length xs) s)) = drop i xs"
proof (induction "length xs - i" arbitrary: i rule: less_induct)
  case less
  show ?case
  proof (cases "i < length xs")
    case False
    then show ?thesis by (simp add: range_step_Nil)
  next
    case True
    show ?thesis
    proof (cases "i + s \<le> length xs")
      case True
      with less.prems \<open>i < length xs\<close>
      have "concat (map (\<lambda>j. slice xs j s) (range_step (i + s) (length xs) s))
            = drop (i + s) xs"
        by (intro less.hyps) auto
      moreover have "take s (drop i xs) @ drop (i + s) xs = drop i xs"
        using append_take_drop_id [of s "drop i xs"] by (simp add: add.commute)
      ultimately show ?thesis
        using less.prems \<open>i < length xs\<close> by (simp add: range_step_Cons slice_def)
    next
      case False
      then have "range_step (i + s) (length xs) s = []"
        by (simp add: range_step_Nil)
      with less.prems \<open>i < length xs\<close> False show ?thesis
        by (simp add: range_step_Cons slice_def)
    qed
  qed
qed

lemma length_range_step:
  "0 < s \<Longrightarrow> length (range_step i n s) = (n - i + s - 1) div s"
proof (induction "n - i" arbitrary: i rule: less_induct)
  case less
  show ?case
  proof (cases "i < n")
    case False
    with less.prems show ?thesis by (simp add: range_step_Nil)
  next
    case True
    with less.prems have "length (range_step (i + s) n s) = (n - (i + s) + s - 1) div s"
      by (intro less.hyps) auto
    moreover have "Suc ((n - (i + s) + s - 1) div s) = (n - i + s - 1) div s"
    proof (cases "i + s \<le> n")
      case True
      define m where "m = n - (i + s) + s - 1"
      from True less.prems have "n - i + s - 1 = m + s"
        by (simp add: m_def)
      moreover from less.prems have "(m + s) div s = Suc (m div s)"
        by simp
      ultimately show ?thesis by (simp add: m_def)
    next
      case False
      with True less.prems have "(n - i + s - 1) div s = 1"
        by (intro div_nat_eqI) auto
      moreover from False less.prems have "(n - (i + s) + s - 1) div s = 0"
        by simp
      ultimately show ?thesis by simp
    qed
    ultimately show ?thesis using True less.prems by (simp add: range_step_Cons)
  qed
qed

lemma nth_range_step:
  "0 < s \<Longrightarrow> k < length (range_step i n s) \<Longrightarrow> range_step i n s ! k = i + k * s"
proof (induction k arbitrary: i)
  case 0
  then have "i < n" by (cases "i < n") (simp_all add: range_step_Nil)
  with 0 show ?case by (simp add: range_step_Cons)
next
  case (Suc k)
  then have "i < n" by (cases "i < n") (simp_all add: range_step_Nil)
  with Suc.prems have "range_step i n s = i # range_step (i + s) n s"
    by (simp add: range_step_Cons)
  with Suc show ?case by simp
qed

lemma ceil_div_nat:
  assumes "0 < s"
  shows "nat \<lceil>real n / real s\<rceil> = (n + s - 1) div s"
proof -
  define q where "q = (n + s - 1) div s"
  define r where "r = (n + s - 1) mod s"
  have eq: "n + s - 1 = q * s + r" by (simp add: q_def r_def)
  have r: "r < s" using assms by (simp add: r_def)
  have up: "n \<le> q * s" using eq r by linarith
  have lo: "q * s < n + s" using eq assms by linarith
  have "real n \<le> real (q * s)" using up by (simp only: of_nat_le_iff)
  then have 1: "real n / real s \<le> real q" using assms by (simp add: field_simps)
  have "real (q * s) < real (n + s)" using lo by (simp only: of_nat_less_iff)
  then have 2: "real q - 1 < real n / real s" using assms by (simp add: field_simps)
  have "\<lceil>real n / real s\<rceil> = int q"
    by (rule ceiling_unique) (use 1 2 in simp_all)
  then show ?thesis by (simp add: q_def)
qed

lemma len_chunk:
  assumes "0 < s" "k < (length xs + s - 1) div s"
  shows "length (slice xs (k * s) s) =
     (if Suc k < (length xs + s - 1) div s then s
      else if length xs mod s = 0 then s else length xs mod s)"
proof -
  define n where "n = length xs"
  define q where "q = (n + s - 1) div s"
  define r where "r = (n + s - 1) mod s"
  have eq: "n + s - 1 = q * s + r" by (simp add: q_def r_def)
  have r: "r < s" using assms by (simp add: r_def)
  have kq: "k < q" using assms by (simp add: q_def n_def)
  show ?thesis
  proof (cases "Suc k < q")
    case True
    then have "Suc (Suc k) * s \<le> q * s" by (intro mult_le_mono1) simp
    then have "k * s + s \<le> n" using eq r assms by simp
    then show ?thesis using True by (simp add: slice_def q_def n_def)
  next
    case False
    with kq have q: "q = Suc k" by simp
    have n: "n = k * s + (r + 1)" using eq q assms by simp
    have "r + 1 \<le> s" using r by simp
    have m: "n mod s = (if r + 1 = s then 0 else r + 1)"
      using n r by (auto simp: mod_mult_self3)
    have "length (slice xs (k * s) s) = r + 1"
      using n r by (simp add: slice_def n_def [symmetric])
    with m False show ?thesis by (auto simp: q_def n_def)
  qed
qed

lemma chunked_example:
  "chunked [1, 2, 3, 4, 5 :: nat] 2 = Inr [[1, 2], [3, 4], [5]]"
  by (simp add: chunked_def slice_def range_step.simps)

text \<open>
  Claim C6. For a positive batch size \<open>chunked\<close> returns batches whose concatenation
  in order is the input list; there are \<open>ceil (n / batchSize)\<close> of them; every batch
  but the last has \<open>batchSize\<close> elements and the last one has \<open>n mod batchSize\<close>
  elements, or \<open>batchSize\<close> when that is zero. For a batch size of zero or less it
  raises the batch-size \<^verbatim>\<open>ValueError\<close>.
\<close>

theorem chunked_partition:
  "(sz \<le> 0 \<longrightarrow> chunked items sz = Inl (ValueError BatchSizeMustBePositive)) \<and>
   (0 < sz \<longrightarrow>
     (\<exists>bs. chunked items sz = Inr bs \<and> concat bs = items \<and>
        length bs = nat \<lceil>real (length items) / real_of_int sz\<rceil> \<and>
        (\<forall>k. Suc k < length bs \<longrightarrow> length (bs ! k) = nat sz) \<and>
        (bs \<noteq> [] \<longrightarrow> length (last bs) =
           (if length items mod nat sz = 0 then nat sz else length items mod nat sz))))"
proof (intro conjI impI)
  assume "sz \<le> 0"
  then show "chunked items sz = Inl (ValueError BatchSizeMustBePositive)"
    by (simp add: chunked_def)
next
  assume pos: "0 < sz"
  define s where "s = nat sz"
  define bs where "bs = map (\<lambda>i. slice items i s) (range_step 0 (length items) s)"
  have s: "0 < s" using pos by (simp add: s_def)
  have len: "length bs = (length items + s - 1) div s"
    using s by (simp add: bs_def length_range_step)
  have nth: "bs ! k = slice items (k * s) s" if "k < length bs" for k
    using that s by (simp add: bs_def nth_range_step)
  have 1: "chunked items sz = Inr bs"
    using pos by (simp add: chunked_def bs_def s_def)
  have 2: "concat bs = items"
    using concat_chunks [OF s, of 0 items] by (simp add: bs_def)
  have "real_of_int sz = real s" using pos by (simp add: s_def)
  then have 3: "length bs = nat \<lceil>real (length items) / real_of_int sz\<rceil>"
    using len ceil_div_nat [OF s, of "length items"] by simp
  have 4: "length (bs ! k) = nat sz" if "Suc k < length bs" for k
  proof -
    from that have k: "k < (length items + s - 1) div s" by (simp add: len)
    from that have "Suc k < (length items + s - 1) div s" by (simp add: len)
    with len_chunk [OF s k] nth [of k] that show ?thesis by (simp add: s_def)
  qed
  have 5: "length (last bs) =
      (if length items mod nat sz = 0 then nat sz else length items mod nat sz)"
    if "bs \<noteq> []"
  proof -
    from that obtain k where k: "length bs = Suc k" by (cases bs) auto
    then have "k < length bs" by simp
    then have kk: "k < (length items + s - 1) div s" unfolding len .
    have "last bs = bs ! k" using that k by (simp add: last_conv_nth)
    with len_chunk [OF s kk] nth [of k] k len show ?thesis by (simp add: s_def)
  qed
  from 1 2 3 4 5
  show "\<exists>bs. chunked items sz = Inr bs \<and> concat bs = items \<and>
        length bs = nat \<lceil>real (length items) / real_of_int sz\<rceil> \<and>
        (\<forall>k. Suc k < length bs \<longrightarrow> length (bs ! k) = nat sz) \<and>
        (bs \<noteq> [] \<longrightarrow> length (last bs) =
           (if length items mod nat sz = 0 then nat sz else length items mod nat sz))"
    by blast
qed

theorem chunked_partition_witness:
  "\<not> (2::int) \<le> 0 \<and> 0 < (2::int) \<and>
   chunked [1, 2, 3, 4, 5 :: nat] 2 = Inr [[1, 2], [3, 4], [5]] \<and>
   concat [[1, 2], [3, 4], [5 :: nat]] = [1, 2, 3, 4, 5] \<and>
   length [[1, 2], [3, 4], [5 :: nat]] = nat \<lceil>real (length [1, 2, 3, 4, 5 :: nat]) / real_of_int 2\<rceil>"
  using chunked_partition [of 2 "[1, 2, 3, 4, 5 :: nat]"] chunked_example
  by auto
subsection \<open>post_json\<close>

lemma after_after: "after xs (after ys c) = after (xs @ ys) c"
  by (simp add: after_def)

lemma after_Nil: "after [] c = c"
  by (simp add: after_def)

lemma retried_0: "retried url token payload a 0 = []"
  by (simp add: retried_def)

lemma retried_Suc_front:
  "retried url token payload a (Suc n) =
     [UrlOpen url token payload, Sleep (backoff a)] @ retried url token payload (Suc a) n"
  by (simp add: retried_def upt_conv_Cons backoff_def)

lemma attempts_shape:
  "a \<le> r \<Longrightarrow> retries = int r \<Longrightarrow>
   \<exists>n. a + n \<le> r \<and>
     fst (post_json_attempts net url token payload retries [a..<Suc r]) =
       retried url token payload a n @ [UrlOpen url token payload]"
proof (induction "r - a" arbitrary: a)
  case 0
  then have a: "a = r" by simp
  have "[r..<Suc r] = [r]" by simp
  then have "fst (post_json_attempts net url token payload retries [a..<Suc r]) =
      [UrlOpen url token payload]"
    using 0 a by (simp add: after_def split: outcome.splits)
  with a show ?case by (intro exI [of _ 0]) (simp add: retried_0)
next
  case (Suc d)
  then have lt: "a < r" by simp
  then have upt: "[a..<Suc r] = a # [Suc a..<Suc r]" by (simp add: upt_conv_Cons)
  have "d = r - Suc a" "Suc a \<le> r" using Suc.hyps(2) by simp_all
  then have "\<exists>n. Suc a + n \<le> r \<and>
    fst (post_json_attempts net url token payload retries [Suc a..<Suc r]) =
       retried url token payload (Suc a) n @ [UrlOpen url token payload]"
    using Suc.prems(2) by (rule Suc.hyps(1))
  then obtain n where n: "Suc a + n \<le> r"
    "fst (post_json_attempts net url token payload retries [Suc a..<Suc r]) =
       retried url token payload (Suc a) n @ [UrlOpen url token payload]"
    by blast
  show ?case
  proof (cases "transient (net a)")
    case True
    then have "fst (post_json_attempts net url token payload retries [a..<Suc r]) =
       retried url token payload a (Suc n) @ [UrlOpen url token payload]"
      using lt Suc.prems n(2)
      by (auto simp add: upt transient_def retryable_def after_def retried_Suc_front
            simp del: upt_Suc split: outcome.splits)
    with n(1) show ?thesis by (intro exI [of _ "Suc n"]) (simp del: upt_Suc)
  next
    case False
    then have "fst (post_json_attempts net url token payload retries [a..<Suc r]) =
       [UrlOpen url token payload]"
      by (auto simp add: upt transient_def retryable_def simp del: upt_Suc
            split: outcome.splits)
    with lt show ?thesis by (intro exI [of _ 0]) (simp add: retried_0 del: upt_Suc)
  qed
qed

text \<open>
  Claim C4. With a retry budget \<open>retries \<ge> 0\<close>, whatever the network answers,
  \<open>post_json\<close> makes \<open>n + 1\<close> HTTP attempts for some \<open>n \<le> retries\<close>, sleeps
  \<open>0.5 * 2^(k-1)\<close> seconds before retry number \<open>k\<close> (for \<open>k\<close> from 1 to \<open>n\<close>) and
  does nothing after its last attempt: its effects are attempt, sleep 0.5, attempt,
  sleep 1, ..., attempt.
\<close>

theorem post_json_attempts_and_backoff:
  assumes "0 \<le> retries"
  shows "\<exists>n. n \<le> nat retries \<and>
     fst (post_json net url token payload retries) =
       concat (map (\<lambda>k. [UrlOpen url token payload, Sleep (1 / 2 * 2 ^ k)]) [0..<n])
         @ [UrlOpen url token payload]"
proof -
  from assms have "py_range (retries + 1) = [0..<Suc (nat retries)]"
    by (simp add: py_range_def nat_add_distrib)
  moreover from assms have "retries = int (nat retries)" by simp
  ultimately show ?thesis
    using attempts_shape [of 0 "nat retries" retries net url token payload]
    by (simp add: post_json_def retried_def)
qed

lemma post_json_net503: "post_json net503 ''u'' ''t'' [] 3 =
    ([UrlOpen ''u'' ''t'' [], Sleep (1 / 2), UrlOpen ''u'' ''t'' [], Sleep 1,
      UrlOpen ''u'' ''t'' [], Sleep 2, UrlOpen ''u'' ''t'' []],
     Inr \<lparr>created = Some 1, failed = Some 0, results = Some []\<rparr>)"
  by (simp add: post_json_def py_range_def upt_rec net503_def retryable_def after_def backoff_def)

theorem post_json_attempts_and_backoff_witness:
  "(0::int) \<le> 3 \<and>
   fst (post_json net503 ''u'' ''t'' [] 3) =
     [UrlOpen ''u'' ''t'' [], Sleep (1 / 2), UrlOpen ''u'' ''t'' [], Sleep 1,
      UrlOpen ''u'' ''t'' [], Sleep 2, UrlOpen ''u'' ''t'' []]"
  using post_json_attempts_and_backoff [of 3 net503 "''u''" "''t''" "[]"] post_json_net503
  by simp

text \<open>
  Claim C9. With a negative retry budget \<open>post_json\<close> makes no HTTP attempt and does
  not sleep; it raises the \<^verbatim>\<open>RuntimeError\<close> of line 114, "request failed after
  retries", which carries neither a status nor a cause.
\<close>

theorem post_json_negative_retries:
  "retries < 0 \<Longrightarrow>
   post_json net url token payload retries = ([], Inl (RuntimeError RequestFailedAfterRetries))"
  by (simp add: post_json_def py_range_def)


theorem post_json_negative_retries_witness:
  "(-1::int) < 0 \<and>
   post_json net503 ''u'' ''t'' [] (-1) = ([], Inl (RuntimeError RequestFailedAfterRetries))"
  using post_json_negative_retries [of "-1" net503 "''u''" "''t''" "[]"] by simp

lemma attempts_skip:
  "\<forall>j<k. transient (net (a + j)) \<Longrightarrow> a + k \<le> r \<Longrightarrow> retries = int r \<Longrightarrow>
   post_json_attempts net url token payload retries [a..<Suc r] =
     after (retried url token payload a k)
       (post_json_attempts net url token payload retries [a + k..<Suc r])"
proof (induction k arbitrary: a)
  case 0
  then show ?case by (simp add: retried_0 after_Nil del: upt_Suc)
next
  case (Suc k)
  from Suc.prems have lt: "a < r" by simp
  then have upt: "[a..<Suc r] = a # [Suc a..<Suc r]" by (simp add: upt_conv_Cons)
  from Suc.prems(1) have "transient (net (a + 0))" by blast
  then have head: "post_json_attempts net url token payload retries [a..<Suc r] =
      after [UrlOpen url token payload, Sleep (backoff a)]
        (post_json_attempts net url token payload retries [Suc a..<Suc r])"
    using lt Suc.prems(3)
    by (auto simp add: upt transient_def retryable_def simp del: upt_Suc
          split: outcome.splits)
  from Suc.prems(1) have "\<forall>j<k. transient (net (Suc a + j))" by auto
  moreover from Suc.prems(2) have "Suc a + k \<le> r" by simp
  ultimately have "post_json_attempts net url token payload retries [Suc a..<Suc r] =
     after (retried url token payload (Suc a) k)
       (post_json_attempts net url token payload retries [Suc a + k..<Suc r])"
    using Suc.prems(3) by (rule Suc.IH)
  with head show ?case
    by (simp add: after_after retried_Suc_front del: upt_Suc)
qed

lemma post_json_skip:
  assumes "\<forall>j<k. transient (net j)" and "int k \<le> retries"
  shows "post_json net url token payload retries =
     after (retried url token payload 0 k)
       (post_json_attempts net url token payload retries (k # [Suc k..<Suc (nat retries)]))"
proof -
  from assms(2) have r: "retries = int (nat retries)" "0 + k \<le> nat retries" by simp_all
  from assms(2) have "py_range (retries + 1) = [0..<Suc (nat retries)]"
    by (simp add: py_range_def nat_add_distrib)
  moreover from r(2) have "[0 + k..<Suc (nat retries)] = k # [Suc k..<Suc (nat retries)]"
    by (simp add: upt_conv_Cons del: upt_Suc)
  moreover from assms(1) have "\<forall>j<k. transient (net (0 + j))" by simp
  ultimately show ?thesis
    using attempts_skip [of k net 0 "nat retries" retries url token payload] r
    by (simp add: post_json_def del: upt_Suc)
qed

text \<open>
  What \<open>post_json\<close> does with each outcome. Let the first \<open>k\<close> attempts all have had
  transient outcomes, with \<open>k \<le> retries\<close>. Then attempt number \<open>k\<close> is made. If its
  outcome is transient as well and \<open>k < retries\<close>, the loop sleeps and makes the next
  attempt. If it is an HTTP error with one of the statuses 429, 500, 502, 503 and 504 and
  no attempt remains, or an HTTP error with any other status (attempts remaining or not),
  \<open>post_json\<close> stops there with the \<^verbatim>\<open>RuntimeError\<close> that carries the status and the
  body. If it is a \<^verbatim>\<open>URLError\<close> and no attempt remains, \<open>post_json\<close> stops with the
  \<^verbatim>\<open>RuntimeError\<close> that carries the cause. If it is any other exception, \<open>post_json\<close>
  stops there with that exception, attempts remaining or not.
\<close>

theorem post_json_outcomes:
  assumes "\<forall>j<k. transient (net j)" and "int k \<le> retries"
  shows "(\<exists>rest. fst (post_json net url token payload retries) =
            retried url token payload 0 k @ UrlOpen url token payload # rest) \<and>
         (transient (net k) \<and> int k < retries \<longrightarrow>
           (\<exists>rest. fst (post_json net url token payload retries) =
              retried url token payload 0 k @
              [UrlOpen url token payload, Sleep (1 / 2 * 2 ^ k), UrlOpen url token payload] @ rest)) \<and>
         (\<forall>code details. net k = HTTPError code details \<and>
            code \<in> {429, 500, 502, 503, 504} \<and> int k = retries \<longrightarrow>
            post_json net url token payload retries =
              (retried url token payload 0 k @ [UrlOpen url token payload],
               Inl (RuntimeError (HTTPFailure code details)))) \<and>
         (\<forall>code details. net k = HTTPError code details \<and>
            code \<notin> {429, 500, 502, 503, 504} \<longrightarrow>
            post_json net url token payload retries =
              (retried url token payload 0 k @ [UrlOpen url token payload],
               Inl (RuntimeError (HTTPFailure code details)))) \<and>
         (\<forall>reason. net k = URLError reason \<and> int k = retries \<longrightarrow>
            post_json net url token payload retries =
              (retried url token payload 0 k @ [UrlOpen url token payload],
               Inl (RuntimeError (RequestFailed reason)))) \<and>
         (\<forall>exc. net k = OtherFailure exc \<longrightarrow>
            post_json net url token payload retries =
              (retried url token payload 0 k @ [UrlOpen url token payload],
               Inl (LibraryException exc)))"
proof -
  note skip = post_json_skip [OF assms, of url token payload]
  have 1: "\<exists>rest. fst (post_json net url token payload retries) =
            retried url token payload 0 k @ UrlOpen url token payload # rest"
    unfolding skip by (cases "net k") (simp_all add: after_def)
  have 2: "\<exists>rest. fst (post_json net url token payload retries) =
              retried url token payload 0 k @
              [UrlOpen url token payload, Sleep (1 / 2 * 2 ^ k), UrlOpen url token payload] @ rest"
    if "transient (net k)" "int k < retries"
  proof -
    from that assms(1) have "\<forall>j<Suc k. transient (net j)" by (simp add: less_Suc_eq)
    moreover from that have "int (Suc k) \<le> retries" by simp
    ultimately have "post_json net url token payload retries =
       after (retried url token payload 0 (Suc k))
       (post_json_attempts net url token payload retries (Suc k # [Suc (Suc k)..<Suc (nat retries)]))"
      by (rule post_json_skip)
    then show ?thesis
      by (cases "net (Suc k)") (simp_all add: after_def retried_def)
  qed
  have 3: "post_json net url token payload retries =
              (retried url token payload 0 k @ [UrlOpen url token payload],
               Inl (RuntimeError (HTTPFailure code details)))"
    if "net k = HTTPError code details"
      "code \<in> {429, 500, 502, 503, 504} \<longrightarrow> int k = retries" for code details
    unfolding skip using that by (auto simp add: after_def retryable_def)
  have 4: "post_json net url token payload retries =
              (retried url token payload 0 k @ [UrlOpen url token payload],
               Inl (RuntimeError (RequestFailed reason)))"
    if "net k = URLError reason" "int k = retries" for reason
    unfolding skip using that by (simp add: after_def)
  have 5: "post_json net url token payload retries =
              (retried url token payload 0 k @ [UrlOpen url token payload],
               Inl (LibraryException exc))"
    if "net k = OtherFailure exc" for exc
    unfolding skip using that by (simp add: after_def)
  from 1 2 3 4 5 show ?thesis by blast
qed

theorem post_json_outcomes_witness:
  "transient (net404 0) \<and> int 1 \<le> 3 \<and> net404 1 = HTTPError 404 ''not found'' \<and>
   (404::int) \<notin> {429, 500, 502, 503, 504} \<and>
   post_json net404 ''u'' ''t'' [] 3 =
     ([UrlOpen ''u'' ''t'' [], Sleep (1 / 2), UrlOpen ''u'' ''t'' []],
      Inl (RuntimeError (HTTPFailure 404 ''not found''))) \<and>
   transient (net_busy 0) \<and> transient (net_busy 1) \<and> int 2 \<le> 2 \<and>
   net_busy 2 = HTTPError 429 ''slow down'' \<and>
   (429::int) \<in> {429, 500, 502, 503, 504} \<and>
   post_json net_busy ''u'' ''t'' [] 2 =
     ([UrlOpen ''u'' ''t'' [], Sleep (1 / 2), UrlOpen ''u'' ''t'' [], Sleep 1,
       UrlOpen ''u'' ''t'' []],
      Inl (RuntimeError (HTTPFailure 429 ''slow down'')))"
proof -
  have h1: "\<forall>j<1. transient (net404 j)" by (simp add: net404_def transient_def)
  have h2: "int 1 \<le> 3" by simp
  have h3: "net404 1 = HTTPError 404 ''not found''" by (simp add: net404_def)
  have h4: "(404::int) \<notin> {429, 500, 502, 503, 504}" by simp
  from post_json_outcomes [OF h1 h2, of "''u''" "''t''" "[]"] h3 h4
  have a: "post_json net404 ''u'' ''t'' [] 3 =
     (retried ''u'' ''t'' [] 0 1 @ [UrlOpen ''u'' ''t'' []],
      Inl (RuntimeError (HTTPFailure 404 ''not found'')))"
    by blast
  have t0: "transient (net404 0)" by (simp add: net404_def transient_def)
  have b0: "transient (net_busy 0)" "transient (net_busy 1)"
    by (simp_all add: net_busy_def transient_def)
  then have g1: "\<forall>j<2. transient (net_busy j)" by (simp add: less_Suc_eq numeral_2_eq_2)
  have g2: "int 2 \<le> 2" "int 2 = 2" by simp_all
  have g3: "net_busy 2 = HTTPError 429 ''slow down''" by (simp add: net_busy_def)
  have g4: "(429::int) \<in> {429, 500, 502, 503, 504}" by simp
  from post_json_outcomes [OF g1 g2(1), of "''u''" "''t''" "[]"] g2(2) g3 g4
  have b: "post_json net_busy ''u'' ''t'' [] 2 =
     (retried ''u'' ''t'' [] 0 2 @ [UrlOpen ''u'' ''t'' []],
      Inl (RuntimeError (HTTPFailure 429 ''slow down'')))"
    by blast
  have r1: "retried ''u'' ''t'' [] 0 1 = [UrlOpen ''u'' ''t'' [], Sleep (1 / 2)]"
    by (simp add: retried_def)
  have r2: "retried ''u'' ''t'' [] 0 2 =
      [UrlOpen ''u'' ''t'' [], Sleep (1 / 2), UrlOpen ''u'' ''t'' [], Sleep 1]"
    by (simp add: retried_def upt_rec)
  from a have a': "post_json net404 ''u'' ''t'' [] 3 =
     ([UrlOpen ''u'' ''t'' [], Sleep (1 / 2), UrlOpen ''u'' ''t'' []],
      Inl (RuntimeError (HTTPFailure 404 ''not found'')))"
    unfolding r1 by simp
  from b have b': "post_json net_busy ''u'' ''t'' [] 2 =
     ([UrlOpen ''u'' ''t'' [], Sleep (1 / 2), UrlOpen ''u'' ''t'' [], Sleep 1,
       UrlOpen ''u'' ''t'' []],
      Inl (RuntimeError (HTTPFailure 429 ''slow down'')))"
    unfolding r2 by simp
  from a' b' t0 b0 h2 h3 h4 g2(1) g3 g4 show ?thesis by blast
qed

text \<open>
  Claim C5. The clauses about HTTP statuses hold, and so does the retry of a
  \<^verbatim>\<open>URLError\<close> (theorem \<open>post_json_outcomes\<close>). The clause about network failures
  does not hold for every failure without a response. When the server closes the
  connection before it answers, \<^verbatim>\<open>urlopen\<close> raises \<^verbatim>\<open>RemoteDisconnected\<close>, which is
  not a \<^verbatim>\<open>URLError\<close>: with three retries left, \<open>post_json\<close> makes one attempt, does not
  sleep, does not retry, and the exception leaves it.
\<close>

theorem post_json_unretried_failure:
  "net_dropped 0 = OtherFailure ''RemoteDisconnected'' \<and>
   post_json net_dropped ''u'' ''t'' [] 3 =
     ([UrlOpen ''u'' ''t'' []], Inl (LibraryException ''RemoteDisconnected''))"
  by (simp add: post_json_def py_range_def upt_rec net_dropped_def)

subsection \<open>split_paragraphs\<close>

lemma in_order_Cons_iff:
  "in_order (seg # segs) s \<longleftrightarrow> (\<exists>pre post. s = pre @ seg @ post \<and> in_order segs post)"
proof
  assume "in_order (seg # segs) s"
  then obtain k where k: "k \<le> length s" "take (length seg) (drop k s) = seg"
    "in_order segs (drop (k + length seg) s)" by auto
  have "s = take k s @ drop k s" by simp
  also have "drop k s = take (length seg) (drop k s) @ drop (length seg) (drop k s)"
    by (simp only: append_take_drop_id)
  also have "\<dots> = seg @ drop (k + length seg) s" using k(2) by (simp add: add.commute)
  finally have "s = take k s @ seg @ drop (k + length seg) s" .
  with k(3) show "\<exists>pre post. s = pre @ seg @ post \<and> in_order segs post" by blast
next
  assume "\<exists>pre post. s = pre @ seg @ post \<and> in_order segs post"
  then obtain pre post where s: "s = pre @ seg @ post" and post: "in_order segs post" by blast
  have "length pre \<in> {0..length s}" by (simp add: s)
  moreover have "take (length seg) (drop (length pre) s) = seg" by (simp add: s)
  moreover have "in_order segs (drop (length pre + length seg) s)" using post by (simp add: s)
  ultimately show "in_order (seg # segs) s" unfolding in_order.simps by blast
qed

declare in_order.simps(2) [simp del]

lemma in_order_append_left: "in_order segs s \<Longrightarrow> in_order segs (pre @ s)"
proof (cases segs)
  case Nil
  then show ?thesis by simp
next
  case (Cons seg rest)
  assume "in_order segs s"
  then obtain p q where "s = p @ seg @ q" "in_order rest q"
    unfolding Cons in_order_Cons_iff by blast
  then have "pre @ s = (pre @ p) @ seg @ q \<and> in_order rest q" by simp
  then show ?thesis unfolding Cons in_order_Cons_iff by blast
qed

lemma in_order_ConsI: "in_order segs post \<Longrightarrow> in_order (seg # segs) (pre @ seg @ post)"
  unfolding in_order_Cons_iff by blast

lemma in_order_re_split: "in_order (re_split cur s) (cur @ s)"
proof (induction cur s rule: re_split.induct)
  case (1 cur)
  have "in_order [cur] ([] @ cur @ [])" by (rule in_order_ConsI) simp
  then show ?case by simp
next
  case (2 cur c r)
  show ?case
  proof (cases "match_blank (c # r)")
    case None
    with 2 show ?thesis by simp
  next
    case (Some n)
    with 2 have "in_order (re_split [] (drop (n - 1) r)) (drop (n - 1) r)" by simp
    then have "in_order (re_split [] (drop (n - 1) r)) ((c # take (n - 1) r) @ drop (n - 1) r)"
      by (rule in_order_append_left)
    then have "in_order (cur # re_split [] (drop (n - 1) r)) ([] @ cur @ c # r)"
      by (intro in_order_ConsI) simp
    with Some show ?thesis by simp
  qed
qed

lemma in_order_str_split: "in_order (str_split sep cur s) (cur @ s)"
proof (induction sep cur s rule: str_split.induct)
  case (1 sep cur)
  have "in_order [cur] ([] @ cur @ [])" by (rule in_order_ConsI) simp
  then show ?case by simp
next
  case (2 sep cur c r)
  show ?case
  proof (cases "sep \<noteq> [] \<and> startswith (c # r) sep")
    case False
    with 2 show ?thesis by auto
  next
    case True
    with 2 have "in_order (str_split sep [] (drop (length sep - 1) r)) (drop (length sep - 1) r)"
      by simp
    then have "in_order (str_split sep [] (drop (length sep - 1) r))
        ((c # take (length sep - 1) r) @ drop (length sep - 1) r)"
      by (rule in_order_append_left)
    then have "in_order (cur # str_split sep [] (drop (length sep - 1) r)) ([] @ cur @ c # r)"
      by (intro in_order_ConsI) simp
    with True show ?thesis by simp
  qed
qed

lemma in_order_filter: "in_order segs s \<Longrightarrow> in_order (filter P segs) s"
proof (induction segs arbitrary: s)
  case Nil
  then show ?case by simp
next
  case (Cons seg segs)
  then obtain pre post where s: "s = pre @ seg @ post" and post: "in_order segs post"
    unfolding in_order_Cons_iff by blast
  from post have rest: "in_order (filter P segs) post" by (rule Cons.IH)
  show ?case
  proof (cases "P seg")
    case True
    with rest show ?thesis unfolding s by (simp add: in_order_ConsI)
  next
    case False
    from rest have "in_order (filter P segs) ((pre @ seg) @ post)" by (rule in_order_append_left)
    with False show ?thesis unfolding s by simp
  qed
qed

lemma strip_inside: "\<exists>a b. s = a @ strip s @ b"
proof -
  define d where "d = dropWhile isspace s"
  have "s = takeWhile isspace s @ d" by (simp add: d_def)
  moreover have "rev (takeWhile isspace (rev d) @ dropWhile isspace (rev d)) = rev (rev d)"
    by (simp only: takeWhile_dropWhile_id)
  then have "rev (dropWhile isspace (rev d)) @ rev (takeWhile isspace (rev d)) = d"
    by (simp only: rev_append rev_rev_ident)
  then have "d = strip s @ rev (takeWhile isspace (rev d))"
    by (simp only: strip_def d_def)
  ultimately have "s = takeWhile isspace s @ strip s @ rev (takeWhile isspace (rev d))"
    by simp
  then show ?thesis by blast
qed

lemma in_order_map_strip: "in_order segs s \<Longrightarrow> in_order (map strip segs) s"
proof (induction segs arbitrary: s)
  case Nil
  then show ?case by simp
next
  case (Cons seg segs)
  then obtain pre post where s: "s = pre @ seg @ post" and post: "in_order segs post"
    unfolding in_order_Cons_iff by blast
  obtain a b where seg: "seg = a @ strip seg @ b" using strip_inside by blast
  from post have "in_order (map strip segs) post" by (rule Cons.IH)
  then have "in_order (map strip segs) (b @ post)" by (rule in_order_append_left)
  then have "in_order (strip seg # map strip segs) ((pre @ a) @ strip seg @ (b @ post))"
    by (rule in_order_ConsI)
  moreover have "s = (pre @ a) @ strip seg @ (b @ post)"
    by (subst s, subst seg) simp
  ultimately show ?case by simp
qed

lemma strip_ends:
  assumes "strip s \<noteq> []"
  shows "\<not> isspace (hd (strip s))" and "\<not> isspace (last (strip s))"
proof -
  define d where "d = dropWhile isspace s"
  define e where "e = dropWhile isspace (rev d)"
  have st: "strip s = rev e" by (simp add: strip_def d_def e_def)
  with assms have e: "e \<noteq> []" by simp
  then have "\<not> isspace (hd e)" unfolding e_def by (rule hd_dropWhile)
  with e show "\<not> isspace (last (strip s))" by (simp add: st last_rev)
  have "rev (takeWhile isspace (rev d) @ dropWhile isspace (rev d)) = rev (rev d)"
    by (simp only: takeWhile_dropWhile_id)
  then have d: "d = rev e @ rev (takeWhile isspace (rev d))"
    by (simp only: rev_append rev_rev_ident e_def)
  with e have "d \<noteq> []" by auto
  then have "\<not> isspace (hd d)" unfolding d_def by (rule hd_dropWhile)
  moreover from d e have "hd d = hd (rev e)" by (metis hd_append2 rev_is_Nil_conv)
  ultimately show "\<not> isspace (hd (strip s))" by (simp add: st)
qed


lemma kept_segments:
  assumes "seg \<in> set (map strip (filter (\<lambda>part. strip part \<noteq> []) pieces))"
  shows "seg \<noteq> [] \<and> (\<exists>c\<in>set seg. \<not> isspace c) \<and> \<not> isspace (hd seg) \<and> \<not> isspace (last seg)"
proof -
  from assms obtain part where seg: "seg = strip part" and ne: "strip part \<noteq> []" by auto
  from ne have "\<not> isspace (hd seg)" "\<not> isspace (last seg)"
    unfolding seg by (rule strip_ends)+
  moreover from ne have "hd seg \<in> set seg" unfolding seg by (rule hd_in_set)
  ultimately show ?thesis using ne seg by auto
qed

lemma split_hello: "split_paragraphs (''Hello'' @ [newline, newline] @ ''World'') ''blankline'' = Inr [''Hello'', ''World'']"
  by (simp add: split_paragraphs_def strip_def isspace_def newline_def newlines_def)

lemma split_dash: "split_paragraphs ''a--- ---b '' ''delimiter:---'' = Inr [''a'', ''b'']"
  by (simp add: split_paragraphs_def strip_def isspace_def startswith_def)

text \<open>
  Claim C7. In mode \<open>blankline\<close> and in every mode \<open>delimiter:<token>\<close> with a token
  that is not empty, \<open>split_paragraphs\<close> returns segments for every text. No segment is
  empty or made of white space only: each one begins and ends with a character that is
  not white space. The segments stand in the text in the order in which they are
  returned.
\<close>

theorem split_paragraphs_segments:
  assumes "mode = ''blankline'' \<or> (\<exists>tok. tok \<noteq> [] \<and> mode = ''delimiter:'' @ tok)"
  shows "\<exists>segs. split_paragraphs content mode = Inr segs \<and>
     (\<forall>seg\<in>set segs. seg \<noteq> [] \<and> (\<exists>c\<in>set seg. \<not> isspace c) \<and>
        \<not> isspace (hd seg) \<and> \<not> isspace (last seg)) \<and>
     in_order segs content"
proof -
  define keep where "keep pieces = map strip (filter (\<lambda>part. strip part \<noteq> []) pieces)"
    for pieces
  have ends: "\<forall>seg\<in>set (keep pieces). seg \<noteq> [] \<and> (\<exists>c\<in>set seg. \<not> isspace c) \<and>
        \<not> isspace (hd seg) \<and> \<not> isspace (last seg)" for pieces
    unfolding keep_def using kept_segments by blast
  have order: "in_order (keep pieces) s" if "in_order pieces s" for pieces s
    unfolding keep_def using that by (intro in_order_map_strip in_order_filter)
  from assms show ?thesis
  proof
    assume "mode = ''blankline''"
    then have "split_paragraphs content mode = Inr (keep (re_split [] content))"
      by (simp add: split_paragraphs_def keep_def)
    moreover have "in_order (keep (re_split [] content)) content"
      using in_order_re_split [of "[]" content] by (intro order) simp
    ultimately show ?thesis using ends by blast
  next
    assume "\<exists>tok. tok \<noteq> [] \<and> mode = ''delimiter:'' @ tok"
    then obtain tok where tok: "tok \<noteq> []" "mode = ''delimiter:'' @ tok" by blast
    then have "split_paragraphs content mode = Inr (keep (str_split tok [] content))"
      by (simp add: split_paragraphs_def keep_def startswith_def)
    moreover have "in_order (keep (str_split tok [] content)) content"
      using in_order_str_split [of tok "[]" content] by (intro order) simp
    ultimately show ?thesis using ends by blast
  qed
qed

theorem split_paragraphs_segments_witness:
  "split_paragraphs ''a--- ---b '' ''delimiter:---'' = Inr [''a'', ''b''] \<and>
   \<not> isspace (CHR ''a'') \<and> \<not> isspace (CHR ''b'') \<and>
   in_order [''a'', ''b''] ''a--- ---b ''"
proof -
  have "''delimiter:---'' = ''blankline'' \<or>
      (\<exists>tok. tok \<noteq> [] \<and> ''delimiter:---'' = ''delimiter:'' @ tok)"
    by simp
  from split_paragraphs_segments [OF this, of "''a--- ---b ''"] show ?thesis
    by (simp add: split_dash)
qed

subsection \<open>load_documents_from_dir\<close>

lemma split_mode_total:
  "split_paragraphs c1 m = Inr x \<Longrightarrow> \<exists>y. split_paragraphs c2 m = Inr y"
  by (auto simp: split_paragraphs_def Let_def split: if_splits)

lemma load_entries_none:
  "\<forall>entry\<in>set entries. \<not> matching fs entry \<Longrightarrow>
   snd (load_entries fs lc sm entries docs) = Inr docs"
  by (induction entries) (auto simp: matching_def after_def)

lemma load_entries_empty_document:
  "\<exists>entry\<in>set entries. matching fs entry \<and> zero_paragraphs fs sm entry \<Longrightarrow>
   \<exists>entry\<in>set entries. matching fs entry \<and> zero_paragraphs fs sm entry \<and>
      snd (load_entries fs lc sm entries docs) = Inl (ValueError (EmptyDocument entry))"
proof (induction entries arbitrary: docs)
  case Nil
  then show ?case by simp
next
  case (Cons entry rest)
  from Cons.prems obtain bad where bad: "bad \<in> set (entry # rest)" "matching fs bad"
    "split_paragraphs (read_text fs bad) sm = Inr []"
    by (auto simp: zero_paragraphs_def)
  show ?case
  proof (cases "matching fs entry")
    case False
    with bad have "\<exists>e\<in>set rest. matching fs e \<and> zero_paragraphs fs sm e"
      by (auto simp: zero_paragraphs_def)
    then obtain e where "e \<in> set rest" "matching fs e" "zero_paragraphs fs sm e"
      "snd (load_entries fs lc sm rest docs) = Inl (ValueError (EmptyDocument e))"
      using Cons.IH [of docs] by blast
    with False show ?thesis by (auto simp: matching_def after_def)
  next
    case True
    from bad(3) obtain paras where paras: "split_paragraphs (read_text fs entry) sm = Inr paras"
      using split_mode_total by blast
    show ?thesis
    proof (cases "paras = []")
      case True
      with paras \<open>matching fs entry\<close> show ?thesis
        by (auto simp: matching_def zero_paragraphs_def build_doc_from_text_def)
    next
      case False
      with paras bad have "\<exists>e\<in>set rest. matching fs e \<and> zero_paragraphs fs sm e"
        by (auto simp: zero_paragraphs_def)
      then obtain e where e: "e \<in> set rest" "matching fs e" "zero_paragraphs fs sm e"
        "snd (load_entries fs lc sm rest
           (docs @ [Document (stem entry) lc
              (map (\<lambda>(idx, b). Paragraph idx b lc) (enumerate 0 paras)) True]))
         = Inl (ValueError (EmptyDocument e))"
        using Cons.IH by blast
      with False paras \<open>matching fs entry\<close> show ?thesis
        by (auto simp: matching_def after_def build_doc_from_text_def)
    qed
  qed
qed

text \<open>
  Claim C8. \<open>load_documents_from_dir\<close> raises when the path is not a directory; when
  no entry of the directory is a regular file with a suffix that is \<open>.txt\<close> or \<open>.md\<close>
  in lower case; and when some such file splits into no paragraph. In the last case the
  error names such a file, and the result is that error: no list of documents is
  returned. The three errors are of class \<open>ValidationError\<close> (see \<open>spec_class\<close>).
\<close>

theorem load_documents_from_dir_failures:
  "(\<not> is_dir fs p \<longrightarrow>
      snd (load_documents_from_dir fs p lc sm) = Inl (ValueError (InputDirectoryNotFound p))) \<and>
   (is_dir fs p \<and> (\<forall>n\<in>set (listdir fs p). \<not> matching fs (joinpath p n)) \<longrightarrow>
      snd (load_documents_from_dir fs p lc sm) = Inl (ValueError (NoTxtOrMdFilesFound p))) \<and>
   (is_dir fs p \<and>
    (\<exists>n\<in>set (listdir fs p). matching fs (joinpath p n) \<and> zero_paragraphs fs sm (joinpath p n)) \<longrightarrow>
      (\<exists>n\<in>set (listdir fs p). matching fs (joinpath p n) \<and> zero_paragraphs fs sm (joinpath p n) \<and>
         snd (load_documents_from_dir fs p lc sm) = Inl (ValueError (EmptyDocument (joinpath p n)))))"
proof (intro conjI impI)
  assume "\<not> is_dir fs p"
  then show "snd (load_documents_from_dir fs p lc sm) = Inl (ValueError (InputDirectoryNotFound p))"
    by (simp add: load_documents_from_dir_def)
next
  assume a: "is_dir fs p \<and> (\<forall>n\<in>set (listdir fs p). \<not> matching fs (joinpath p n))"
  then have "\<forall>entry\<in>set (map (joinpath p) (sort (listdir fs p))). \<not> matching fs entry"
    by auto
  then have "snd (load_entries fs lc sm (map (joinpath p) (sort (listdir fs p))) []) = Inr []"
    by (rule load_entries_none)
  with a show "snd (load_documents_from_dir fs p lc sm) = Inl (ValueError (NoTxtOrMdFilesFound p))"
    by (auto simp: load_documents_from_dir_def split: prod.splits sum.splits)
next
  assume a: "is_dir fs p \<and>
    (\<exists>n\<in>set (listdir fs p). matching fs (joinpath p n) \<and> zero_paragraphs fs sm (joinpath p n))"
  then have "\<exists>entry\<in>set (map (joinpath p) (sort (listdir fs p))).
      matching fs entry \<and> zero_paragraphs fs sm entry"
    by auto
  then have "\<exists>entry\<in>set (map (joinpath p) (sort (listdir fs p))).
      matching fs entry \<and> zero_paragraphs fs sm entry \<and>
      snd (load_entries fs lc sm (map (joinpath p) (sort (listdir fs p))) []) =
        Inl (ValueError (EmptyDocument entry))"
    by (rule load_entries_empty_document)
  then obtain n where n: "n \<in> set (listdir fs p)" "matching fs (joinpath p n)"
    "zero_paragraphs fs sm (joinpath p n)"
    "snd (load_entries fs lc sm (map (joinpath p) (sort (listdir fs p))) []) =
        Inl (ValueError (EmptyDocument (joinpath p n)))"
    by auto
  from n(4) a have "snd (load_documents_from_dir fs p lc sm) =
      Inl (ValueError (EmptyDocument (joinpath p n)))"
    by (auto simp: load_documents_from_dir_def split: prod.splits sum.splits)
  with n show "\<exists>n\<in>set (listdir fs p). matching fs (joinpath p n) \<and>
      zero_paragraphs fs sm (joinpath p n) \<and>
      snd (load_documents_from_dir fs p lc sm) = Inl (ValueError (EmptyDocument (joinpath p n)))"
    by blast
qed

theorem load_documents_from_dir_failures_witness:
  "\<not> is_dir fs_example ''nowhere'' \<and>
   snd (load_documents_from_dir fs_example ''nowhere'' ''en-US'' ''blankline'') =
     Inl (ValueError (InputDirectoryNotFound ''nowhere'')) \<and>
   is_dir fs_example ''other'' \<and> listdir fs_example ''other'' = [''.txt'', ''readme''] \<and>
   \<not> matching fs_example ''other/.txt'' \<and> \<not> matching fs_example ''other/readme'' \<and>
   snd (load_documents_from_dir fs_example ''other'' ''en-US'' ''blankline'') =
     Inl (ValueError (NoTxtOrMdFilesFound ''other'')) \<and>
   is_dir fs_example ''blank'' \<and> listdir fs_example ''blank'' = [''x.TXT''] \<and>
   matching fs_example ''blank/x.TXT'' \<and>
   zero_paragraphs fs_example ''blankline'' ''blank/x.TXT'' \<and>
   snd (load_documents_from_dir fs_example ''blank'' ''en-US'' ''blankline'') =
     Inl (ValueError (EmptyDocument ''blank/x.TXT''))"
proof -
  have a1: "\<not> is_dir fs_example ''nowhere''" by code_simp
  have b1: "is_dir fs_example ''other''" by code_simp
  have b2: "listdir fs_example ''other'' = [''.txt'', ''readme'']" by code_simp
  have b3: "\<not> matching fs_example ''other/.txt''" by code_simp
  have b4: "\<not> matching fs_example ''other/readme''" by code_simp
  have c1: "is_dir fs_example ''blank''" by code_simp
  have c2: "listdir fs_example ''blank'' = [''x.TXT'']" by code_simp
  have c3: "matching fs_example ''blank/x.TXT''" by code_simp
  have c4: "zero_paragraphs fs_example ''blankline'' ''blank/x.TXT''" by code_simp
  have a: "snd (load_documents_from_dir fs_example ''nowhere'' ''en-US'' ''blankline'') =
     Inl (ValueError (InputDirectoryNotFound ''nowhere''))"
    using load_documents_from_dir_failures [of fs_example "''nowhere''" "''en-US''" "''blankline''"] a1
    by blast
  have b: "snd (load_documents_from_dir fs_example ''other'' ''en-US'' ''blankline'') =
     Inl (ValueError (NoTxtOrMdFilesFound ''other''))"
    using load_documents_from_dir_failures [of fs_example "''other''" "''en-US''" "''blankline''"]
      b1 b2 b3 b4
    by (simp add: joinpath_def)
  have c: "snd (load_documents_from_dir fs_example ''blank'' ''en-US'' ''blankline'') =
     Inl (ValueError (EmptyDocument ''blank/x.TXT''))"
    using load_documents_from_dir_failures [of fs_example "''blank''" "''en-US''" "''blankline''"]
      c1 c2 c3 c4
    by (simp add: joinpath_def)
  from a1 a b1 b2 b3 b4 b c1 c2 c3 c4 c show ?thesis by blast
qed

subsection \<open>The effects and errors of the phases of main\<close>

lemma fst_after [simp]: "fst (after evs c) = evs @ fst c"
  by (simp add: after_def)

lemma snd_after [simp]: "snd (after evs c) = snd c"
  by (simp add: after_def)

lemma post_json_attempts_events:
  "ev \<in> set (fst (post_json_attempts net url token payload retries attempts)) \<Longrightarrow> is_network ev"
  by (induction attempts) (auto simp: is_network_def split: outcome.splits if_splits)


lemma post_json_events:
  "ev \<in> set (fst (post_json net url token payload retries)) \<Longrightarrow> is_network ev"
  unfolding post_json_def by (rule post_json_attempts_events)









lemma fs_not_network: "is_fs ev \<Longrightarrow> \<not> is_network ev"
  by (cases ev) (simp_all add: is_fs_def is_network_def)

subsection \<open>main: configuration errors\<close>

lemma main_load_error:
  "load_documents jl fs a = (evs, Inl e) \<Longrightarrow> main jl fs net a = (evs, Inl e)"
  by (simp add: main_def)

lemma main_dry_run:
  "load_documents jl fs a = (evs, Inr docs) \<Longrightarrow> arg_dry_run a \<Longrightarrow>
   main jl fs net a = (evs @ [Print (LoadedLine (length docs))], Inr 0)"
  by (simp add: main_def)

lemma main_chunked_error:
  "load_documents jl fs a = (evs, Inr docs) \<Longrightarrow> \<not> arg_dry_run a \<Longrightarrow>
   chunked docs (arg_batch_size a) = Inl e \<Longrightarrow> main jl fs net a = (evs, Inl e)"
  by (simp add: main_def)

lemma main_send_error:
  "load_documents jl fs a = (evs, Inr docs) \<Longrightarrow> \<not> arg_dry_run a \<Longrightarrow>
   chunked docs (arg_batch_size a) = Inr batches \<Longrightarrow>
   send_batches net (rstrip_slash (arg_base_url a) @ ''/v1/documents:batch'') (arg_token a)
     (arg_retries a) (length batches) (enumerate 1 batches) 0 0 = (evs', Inl e) \<Longrightarrow>
   main jl fs net a = (evs @ evs', Inl e)"
  by (simp add: main_def)

lemma main_done:
  "load_documents jl fs a = (evs, Inr docs) \<Longrightarrow> \<not> arg_dry_run a \<Longrightarrow>
   chunked docs (arg_batch_size a) = Inr batches \<Longrightarrow>
   send_batches net (rstrip_slash (arg_base_url a) @ ''/v1/documents:batch'') (arg_token a)
     (arg_retries a) (length batches) (enumerate 1 batches) 0 0 = (evs', Inr (tc, tf)) \<Longrightarrow>
   main jl fs net a = (evs @ evs' @ [Print (DoneLine tc tf)], Inr (if tf = 0 then 0 else 1))"
  by (simp add: main_def)

text \<open>The five ways in which a run ends.\<close>

lemma main_cases:
  obtains
    (load_error) evs e where "load_documents jl fs a = (evs, Inl e)"
      "main jl fs net a = (evs, Inl e)"
  | (dry_run) evs docs where "load_documents jl fs a = (evs, Inr docs)" "arg_dry_run a"
      "main jl fs net a = (evs @ [Print (LoadedLine (length docs))], Inr 0)"
  | (chunked_error) evs docs e where "load_documents jl fs a = (evs, Inr docs)"
      "\<not> arg_dry_run a" "chunked docs (arg_batch_size a) = Inl e"
      "main jl fs net a = (evs, Inl e)"
  | (send_error) evs docs batches evs' e where "load_documents jl fs a = (evs, Inr docs)"
      "\<not> arg_dry_run a" "chunked docs (arg_batch_size a) = Inr batches"
      "send_batches net (rstrip_slash (arg_base_url a) @ ''/v1/documents:batch'') (arg_token a)
         (arg_retries a) (length batches) (enumerate 1 batches) 0 0 = (evs', Inl e)"
      "main jl fs net a = (evs @ evs', Inl e)"
  | (completed) evs docs batches evs' tc tf where "load_documents jl fs a = (evs, Inr docs)"
      "\<not> arg_dry_run a" "chunked docs (arg_batch_size a) = Inr batches"
      "send_batches net (rstrip_slash (arg_base_url a) @ ''/v1/documents:batch'') (arg_token a)
         (arg_retries a) (length batches) (enumerate 1 batches) 0 0 = (evs', Inr (tc, tf))"
      "main jl fs net a = (evs @ evs' @ [Print (DoneLine tc tf)], Inr (if tf = 0 then 0 else 1))"
proof -
  obtain evs res where l: "load_documents jl fs a = (evs, res)"
    by (cases "load_documents jl fs a")
  show thesis
  proof (cases res)
    case (Inl e)
    with l show thesis using load_error main_load_error by blast
  next
    case (Inr docs)
    note docs = l [unfolded Inr]
    show thesis
    proof (cases "arg_dry_run a")
      case True
      with docs show thesis using dry_run main_dry_run by blast
    next
      case False
      show thesis
      proof (cases "chunked docs (arg_batch_size a)")
        case (Inl e)
        with docs False show thesis using chunked_error main_chunked_error by blast
      next
        case (Inr batches)
        obtain evs' res' where s:
          "send_batches net (rstrip_slash (arg_base_url a) @ ''/v1/documents:batch'') (arg_token a)
            (arg_retries a) (length batches) (enumerate 1 batches) 0 0 = (evs', res')"
          by (cases "send_batches net (rstrip_slash (arg_base_url a) @ ''/v1/documents:batch'')
            (arg_token a) (arg_retries a) (length batches) (enumerate 1 batches) 0 0")
        show thesis
        proof (cases res')
          case (Inl e)
          with docs False Inr s show thesis using send_error main_send_error by blast
        next
          case r: (Inr totals)
          obtain tc tf where "totals = (tc, tf)" by (cases totals)
          with docs False Inr s r show thesis using completed main_done by blast
        qed
      qed
    qed
  qed
qed




lemma main_args_zero:
  "main loads_example fs_example net_ok args_zero =
     ([IsDir ''docs'', IsDir ''docs'', IterDir ''docs'', IsFile ''docs/a.txt'',
       ReadText ''docs/a.txt'', IsFile ''docs/b.md'', ReadText ''docs/b.md'',
       IsFile ''docs/sub''],
      Inl (ValueError BatchSizeMustBePositive))"
  by code_simp

lemma load_args_zero:
  "load_documents loads_example fs_example args_zero =
     ([IsDir ''docs'', IsDir ''docs'', IterDir ''docs'', IsFile ''docs/a.txt'',
       ReadText ''docs/a.txt'', IsFile ''docs/b.md'', ReadText ''docs/b.md'',
       IsFile ''docs/sub''],
      Inr [Document ''a'' ''en-US''
             [Paragraph 0 ''Hello'' ''en-US'', Paragraph 1 ''World'' ''en-US''] True,
           Document ''b'' ''en-US'' [Paragraph 0 ''One'' ''en-US''] True])"
  by code_simp

lemma main_args_para:
  "main loads_example fs_example net_ok args_para =
     ([IsDir ''docs'', IsDir ''docs'', IterDir ''docs'', IsFile ''docs/a.txt'',
       ReadText ''docs/a.txt''],
      Inl (ValueError (UnsupportedSplitRule ''para'')))"
  by code_simp









lemma main_args_delimiter:
  "main loads_example fs_example net_ok args_delimiter =
     ([IsDir ''docs'', IsDir ''docs'', IterDir ''docs'', IsFile ''docs/a.txt'',
       ReadText ''docs/a.txt''],
      Inl (ValueError DelimiterMustNotBeEmpty))"
  by code_simp

lemma load_args_zero_dry:
  "load_documents loads_example fs_example args_zero_dry = (load_events_example, Inr docs_example)"
  by code_simp





subsection \<open>main: totals and exit status\<close>

lemma send_batches_totals:
  assumes "\<forall>(idx, batch)\<in>set bs. snd (post_json (net idx) url token batch retries) = Inr (r idx)"
  shows "snd (send_batches net url token retries n bs tc tf) =
     Inr (tc + sum_list (map (\<lambda>idx. get_int (created (r idx))) (map fst bs)),
          tf + sum_list (map (\<lambda>idx. get_int (failed (r idx))) (map fst bs)))"
  using assms
proof (induction bs arbitrary: tc tf)
  case Nil
  then show ?case by simp
next
  case (Cons b bs)
  obtain idx batch where b: "b = (idx, batch)" by (cases b)
  from Cons.prems b have p: "snd (post_json (net idx) url token batch retries) = Inr (r idx)"
    by simp
  then obtain evs where p': "post_json (net idx) url token batch retries = (evs, Inr (r idx))"
    by (cases "post_json (net idx) url token batch retries") simp
  from Cons.prems have "\<forall>(idx, batch)\<in>set bs.
      snd (post_json (net idx) url token batch retries) = Inr (r idx)" by simp
  then have "snd (send_batches net url token retries n bs
       (tc + get_int (created (r idx))) (tf + get_int (failed (r idx)))) =
     Inr (tc + get_int (created (r idx)) + sum_list (map (\<lambda>idx. get_int (created (r idx))) (map fst bs)),
          tf + get_int (failed (r idx)) + sum_list (map (\<lambda>idx. get_int (failed (r idx))) (map fst bs)))"
    by (rule Cons.IH)
  with b p' show ?case by (simp add: Let_def add.assoc)
qed

lemma map_fst_enumerate: "map fst (enumerate k xs) = [k..<k + length xs]"
  by (simp add: enumerate_eq_zip)

lemma in_set_enumerate: "(idx, x) \<in> set (enumerate (Suc 0) xs) \<Longrightarrow>
   \<exists>i<length xs. idx = Suc i \<and> x = xs ! i"
proof -
  assume "(idx, x) \<in> set (enumerate (Suc 0) xs)"
  then have "Suc 0 \<le> idx" "idx < Suc (length xs)" "x = xs ! (idx - Suc 0)"
    by (auto simp: in_set_enumerate_eq)
  then have "idx - Suc 0 < length xs \<and> idx = Suc (idx - Suc 0) \<and> x = xs ! (idx - Suc 0)"
    by simp
  then show ?thesis by blast
qed

lemma chunked_single:
  assumes "docs \<noteq> []" and "int (length docs) \<le> sz"
  shows "chunked docs sz = Inr [docs]"
proof -
  from assms(1) have n0: "0 < length docs" by simp
  with assms(2) have n: "0 < length docs" "length docs \<le> nat sz" "0 < nat sz" "0 < sz"
    by linarith+
  then have "range_step 0 (length docs) (nat sz) = 0 # range_step (0 + nat sz) (length docs) (nat sz)"
    by (intro range_step_Cons)
  also from n have "range_step (0 + nat sz) (length docs) (nat sz) = []"
    by (intro range_step_Nil) simp
  finally show ?thesis using n by (simp add: chunked_def slice_def)
qed


lemma main_totals:
  assumes load: "load_documents jl fs a = (evs, Inr docs)"
    and wet: "\<not> arg_dry_run a"
    and chunks: "chunked docs (arg_batch_size a) = Inr batches"
    and sent: "\<forall>i<length batches.
       snd (post_json (net (Suc i)) (rstrip_slash (arg_base_url a) @ ''/v1/documents:batch'')
              (arg_token a) (batches ! i) (arg_retries a)) = Inr (r (Suc i))"
  shows "snd (main jl fs net a) =
     Inr (if (\<Sum>i = 1..length batches. get_int (failed (r i))) = 0 then 0 else 1)"
proof -
  let ?url = "rstrip_slash (arg_base_url a) @ ''/v1/documents:batch''"
  let ?bs = "enumerate 1 batches"
  define tc where "tc = 0 + sum_list (map (\<lambda>idx. get_int (created (r idx))) (map fst ?bs))"
  have "\<forall>(idx, batch)\<in>set ?bs.
      snd (post_json (net idx) ?url (arg_token a) batch (arg_retries a)) = Inr (r idx)"
  proof (intro ballI, clarify)
    fix idx batch
    assume "(idx, batch) \<in> set ?bs"
    then have "(idx, batch) \<in> set (enumerate (Suc 0) batches)"
      by (simp only: One_nat_def)
    then have "\<exists>i<length batches. idx = Suc i \<and> batch = batches ! i"
      by (rule in_set_enumerate)
    then obtain i where "i < length batches" "idx = Suc i" "batch = batches ! i"
      by blast
    with sent show "snd (post_json (net idx) ?url (arg_token a) batch (arg_retries a)) = Inr (r idx)"
      by blast
  qed
  then have "snd (send_batches net ?url (arg_token a) (arg_retries a) (length batches) ?bs 0 0) =
     Inr (0 + sum_list (map (\<lambda>idx. get_int (created (r idx))) (map fst ?bs)),
          0 + sum_list (map (\<lambda>idx. get_int (failed (r idx))) (map fst ?bs)))"
    by (rule send_batches_totals)
  moreover have "0 + sum_list (map (\<lambda>idx. get_int (failed (r idx))) (map fst ?bs))
      = (\<Sum>i = 1..length batches. get_int (failed (r i)))"
  proof -
    have "map fst ?bs = [1..<1 + length batches]"
      by (rule map_fst_enumerate)
    moreover have "{1..<1 + length batches} = {1..length batches}"
      by auto
    ultimately have "sum_list (map (\<lambda>idx. get_int (failed (r idx))) (map fst ?bs))
      = (\<Sum>i = 1..length batches. get_int (failed (r i)))"
      by (simp only: interv_sum_list_conv_sum_set_nat set_upt)
    then show ?thesis by (simp only: add_0)
  qed
  ultimately have "snd (send_batches net ?url (arg_token a) (arg_retries a) (length batches) ?bs 0 0) =
     Inr (tc, \<Sum>i = 1..length batches. get_int (failed (r i)))"
    by (simp only: tc_def)
  then have "send_batches net ?url (arg_token a) (arg_retries a) (length batches) ?bs 0 0 =
     (fst (send_batches net ?url (arg_token a) (arg_retries a) (length batches) ?bs 0 0),
      Inr (tc, \<Sum>i = 1..length batches. get_int (failed (r i))))"
    by (metis prod.collapse)
  with load wet chunks have "main jl fs net a =
     (evs @ fst (send_batches net ?url (arg_token a) (arg_retries a) (length batches) ?bs 0 0) @
        [Print (DoneLine tc (\<Sum>i = 1..length batches. get_int (failed (r i))))],
      Inr (if (\<Sum>i = 1..length batches. get_int (failed (r i))) = 0 then 0 else 1))"
    by (rule main_done)
  then show ?thesis by (simp only: snd_conv)
qed

lemma load_args_example:
  "load_documents loads_example fs_example args_example = (load_events_example, Inr docs_example)"
  by code_simp

lemma url_args_example:
  "rstrip_slash (arg_base_url args_example) @ ''/v1/documents:batch'' = url_example"
  by code_simp

lemma chunked_docs_example:
  "chunked docs_example (arg_batch_size args_example) = Inr [docs_example]"
  by (rule chunked_single) (simp_all add: docs_example_def args_example_def)

lemma post_json_response:
  "net 0 = Response res \<Longrightarrow> 0 \<le> retries \<Longrightarrow>
   post_json net url token payload retries = ([UrlOpen url token payload], Inr res)"
  by (simp add: post_json_def py_range_def nat_add_distrib upt_conv_Cons del: upt_Suc)

text \<open>
  Claim C3, as amended. Let every batch of a run be sent without a transport failure,
  the response to batch \<open>i\<close> being \<open>r i\<close>. The exit status is 1 if and only if the
  total of the \<open>failed\<close> counts of all responses (a missing count is 0) is different
  from 0, and 0 otherwise. When no response reports a negative count, that is: the exit
  status is 1 if and only if the total is greater than 0.
\<close>

theorem exit_status_by_total_failed:
  assumes "load_documents jl fs a = (evs, Inr docs)"
    and "\<not> arg_dry_run a"
    and "chunked docs (arg_batch_size a) = Inr batches"
    and "\<forall>i<length batches.
       snd (post_json (net (Suc i)) (rstrip_slash (arg_base_url a) @ ''/v1/documents:batch'')
              (arg_token a) (batches ! i) (arg_retries a)) = Inr (r (Suc i))"
  shows "exit_status (main jl fs net a) =
       (if (\<Sum>i = 1..length batches. get_int (failed (r i))) = 0 then 0 else 1) \<and>
     ((\<forall>i\<in>{1..length batches}. 0 \<le> get_int (failed (r i))) \<longrightarrow>
        (exit_status (main jl fs net a) = 1 \<longleftrightarrow>
           0 < (\<Sum>i = 1..length batches. get_int (failed (r i)))))"
proof -
  have st: "exit_status (main jl fs net a) =
       (if (\<Sum>i = 1..length batches. get_int (failed (r i))) = 0 then 0 else 1)"
    using main_totals [OF assms] by (simp add: exit_status_def)
  have "0 \<le> (\<Sum>i = 1..length batches. get_int (failed (r i)))"
    if "\<forall>i\<in>{1..length batches}. 0 \<le> get_int (failed (r i))"
    using that by (intro sum_nonneg) blast
  with st show ?thesis by auto
qed


theorem exit_status_by_total_failed_witness:
  "load_documents loads_example fs_example args_example = (load_events_example, Inr docs_example) \<and>
   \<not> arg_dry_run args_example \<and>
   chunked docs_example (arg_batch_size args_example) = Inr [docs_example] \<and>
   snd (post_json (net_partial 1) url_example (arg_token args_example) docs_example
          (arg_retries args_example)) = Inr result_partial \<and>
   0 \<le> get_int (failed result_partial) \<and>
   exit_status (main loads_example fs_example net_partial args_example) = 1 \<and>
   0 < get_int (failed result_partial)"
proof -
  have h2: "\<not> arg_dry_run args_example" by (simp add: args_example_def)
  have p: "snd (post_json (net_partial 1) url_example (arg_token args_example) docs_example
          (arg_retries args_example)) = Inr result_partial"
    by (subst post_json_response [of _ result_partial])
       (simp_all add: net_partial_def args_example_def)
  then have h4: "\<forall>i<length [docs_example].
       snd (post_json (net_partial (Suc i))
              (rstrip_slash (arg_base_url args_example) @ ''/v1/documents:batch'')
              (arg_token args_example) ([docs_example] ! i) (arg_retries args_example)) =
       Inr ((\<lambda>i. result_partial) (Suc i))"
    by (simp add: url_args_example)
  have f: "get_int (failed result_partial) = 1" by (simp add: result_partial_def get_int_def)
  from exit_status_by_total_failed [OF load_args_example h2 chunked_docs_example h4]
  have "exit_status (main loads_example fs_example net_partial args_example) = 1"
    by (simp add: f)
  with load_args_example h2 chunked_docs_example p f show ?thesis by simp
qed

lemma main_net_negative:
  "main loads_example fs_example net_negative args_example =
     (load_events_example @
      [UrlOpen url_example ''jwt'' docs_example,
       Print (BatchLine 1 1 2 (- 1)), Print (DoneLine 2 (- 1))],
      Inr 1)"
  by code_simp

text \<open>
  Claim C3 as stated fails: the counts are integers that the script takes from the
  response as they are. When the service reports \<open>failed = -1\<close> for the only batch,
  the total is \<open>-1\<close>, which is not greater than 0, and the exit status is 1.
\<close>

theorem exit_status_negative_total:
  "exit_status (main loads_example fs_example net_negative args_example) = 1 \<and>
   last (fst (main loads_example fs_example net_negative args_example)) = Print (DoneLine 2 (- 1)) \<and>
   \<not> (0::int) < - 1"
  by (simp add: main_net_negative exit_status_def)

lemma main_args_nowhere:
  "main loads_example fs_example net_ok args_nowhere =
     ([IsDir ''nowhere''], Inl (ValueError (InputDirectoryNotFound ''nowhere'')))"
  by code_simp

lemma send_batches_partial:
  "send_batches net_partial (rstrip_slash (arg_base_url args_example) @ ''/v1/documents:batch'')
     (arg_token args_example) (arg_retries args_example) (length [docs_example])
     (enumerate 1 [docs_example]) 0 0 =
   ([UrlOpen url_example ''jwt'' docs_example, Print (BatchLine 1 1 1 1),
     Print (ItemLine (Some 1) ''malformed'')],
    Inr (1, 1))"
  by code_simp

text \<open>
  Claim C2, as amended. The exit status of every run is 0 or 1. It is 1 when an error
  aborts the run, whatever its class: the exception leaves \<open>main\<close> and the interpreter
  ends with status 1. It is 0 when a dry run has loaded its documents. When all batches
  have been sent, it is 0 if the total of the failed counts is 0 and 1 otherwise.
\<close>

theorem exit_status_values:
  "(exit_status (main jl fs net a) = 0 \<or> exit_status (main jl fs net a) = 1) \<and>
   (\<forall>e. snd (main jl fs net a) = Inl e \<longrightarrow> exit_status (main jl fs net a) = 1) \<and>
   (\<forall>evs docs. load_documents jl fs a = (evs, Inr docs) \<and> arg_dry_run a \<longrightarrow>
      exit_status (main jl fs net a) = 0) \<and>
   (\<forall>evs docs batches evs' tc tf.
      load_documents jl fs a = (evs, Inr docs) \<and> \<not> arg_dry_run a \<and>
      chunked docs (arg_batch_size a) = Inr batches \<and>
      send_batches net (rstrip_slash (arg_base_url a) @ ''/v1/documents:batch'') (arg_token a)
        (arg_retries a) (length batches) (enumerate 1 batches) 0 0 = (evs', Inr (tc, tf)) \<longrightarrow>
      exit_status (main jl fs net a) = (if tf = 0 then 0 else 1))"
proof (intro conjI allI impI)
  show "exit_status (main jl fs net a) = 0 \<or> exit_status (main jl fs net a) = 1"
    by (cases rule: main_cases [of jl fs a net]) (simp_all add: exit_status_def)
next
  fix e
  assume "snd (main jl fs net a) = Inl e"
  then show "exit_status (main jl fs net a) = 1" by (simp add: exit_status_def)
next
  fix evs docs
  assume "load_documents jl fs a = (evs, Inr docs) \<and> arg_dry_run a"
  then have "main jl fs net a = (evs @ [Print (LoadedLine (length docs))], Inr 0)"
    using main_dry_run by blast
  then show "exit_status (main jl fs net a) = 0" by (simp add: exit_status_def)
next
  fix evs docs batches evs' tc tf
  assume "load_documents jl fs a = (evs, Inr docs) \<and> \<not> arg_dry_run a \<and>
      chunked docs (arg_batch_size a) = Inr batches \<and>
      send_batches net (rstrip_slash (arg_base_url a) @ ''/v1/documents:batch'') (arg_token a)
        (arg_retries a) (length batches) (enumerate 1 batches) 0 0 = (evs', Inr (tc, tf))"
  then have "main jl fs net a =
      (evs @ evs' @ [Print (DoneLine tc tf)], Inr (if tf = 0 then 0 else 1))"
    using main_done by blast
  then show "exit_status (main jl fs net a) = (if tf = 0 then 0 else 1)"
    by (simp add: exit_status_def)
qed

theorem exit_status_values_witness:
  "snd (main loads_example fs_example net_ok args_nowhere) =
     Inl (ValueError (InputDirectoryNotFound ''nowhere'')) \<and>
   exit_status (main loads_example fs_example net_ok args_nowhere) = 1 \<and>
   load_documents loads_example fs_example args_zero_dry = (load_events_example, Inr docs_example) \<and>
   arg_dry_run args_zero_dry \<and>
   exit_status (main loads_example fs_example net_ok args_zero_dry) = 0 \<and>
   \<not> arg_dry_run args_example \<and>
   exit_status (main loads_example fs_example net_partial args_example) = 1"
proof -
  have a1: "snd (main loads_example fs_example net_ok args_nowhere) =
     Inl (ValueError (InputDirectoryNotFound ''nowhere''))"
    by (simp add: main_args_nowhere)
  with exit_status_values [of loads_example fs_example net_ok args_nowhere]
  have a2: "exit_status (main loads_example fs_example net_ok args_nowhere) = 1" by blast
  have b1: "arg_dry_run args_zero_dry" by (simp add: args_zero_dry_def)
  with exit_status_values [of loads_example fs_example net_ok args_zero_dry] load_args_zero_dry
  have b2: "exit_status (main loads_example fs_example net_ok args_zero_dry) = 0" by blast
  have c1: "\<not> arg_dry_run args_example" by (simp add: args_example_def)
  with exit_status_values [of loads_example fs_example net_partial args_example]
    load_args_example chunked_docs_example send_batches_partial
  have "exit_status (main loads_example fs_example net_partial args_example) =
      (if (1::int) = 0 then 0 else 1)" by blast
  then have c2: "exit_status (main loads_example fs_example net_partial args_example) = 1"
    by simp
  from a1 a2 load_args_zero_dry b1 b2 c1 c2 show ?thesis by blast
qed

text \<open>
  Claim C2 as stated fails: a fatal error of class \<open>ValidationError\<close> (the input
  directory does not exist) ends the run with exit status 1, the status of a run with
  failed documents, and not with a status distinct from 1.
\<close>

theorem fatal_error_exit_status_one:
  "snd (main loads_example fs_example net_ok args_nowhere) =
     Inl (ValueError (InputDirectoryNotFound ''nowhere'')) \<and>
   spec_class (ValueError (InputDirectoryNotFound ''nowhere'')) = ValidationError \<and>
   exit_status (main loads_example fs_example net_ok args_nowhere) = 1"
  by (simp add: main_args_nowhere exit_status_def)

subsection \<open>main: counts that a response does not have\<close>

lemma get_int_count: "get_int v = count_or_zero v"
  by (cases v) (simp_all add: get_int_def count_or_zero_def)

lemma count_nonzero: "count_or_zero v \<noteq> 0 \<longleftrightarrow> \<not> (v = None \<or> v = Some 0)"
  by (cases v) (simp_all add: count_or_zero_def)

lemma send_batches_run:
  assumes "\<forall>(idx, batch)\<in>set bs.
     post_json (net idx) url token batch retries = (sent idx, Inr (r idx))"
  shows "send_batches net url token retries n bs tc tf =
     (concat (map (\<lambda>idx. batch_events (sent idx) idx n (r idx)) (map fst bs)),
      Inr (tc + sum_list (map (\<lambda>idx. count_or_zero (created (r idx))) (map fst bs)),
           tf + sum_list (map (\<lambda>idx. count_or_zero (failed (r idx))) (map fst bs))))"
  using assms
proof (induction bs arbitrary: tc tf)
  case Nil
  then show ?case by simp
next
  case (Cons b bs)
  obtain idx batch where b: "b = (idx, batch)" by (cases b)
  from Cons.prems b have p: "post_json (net idx) url token batch retries = (sent idx, Inr (r idx))"
    by simp
  from Cons.prems have "\<forall>(idx, batch)\<in>set bs.
      post_json (net idx) url token batch retries = (sent idx, Inr (r idx))" by simp
  then have ih: "send_batches net url token retries n bs
       (tc + count_or_zero (created (r idx))) (tf + count_or_zero (failed (r idx))) =
     (concat (map (\<lambda>idx. batch_events (sent idx) idx n (r idx)) (map fst bs)),
      Inr (tc + count_or_zero (created (r idx)) +
             sum_list (map (\<lambda>idx. count_or_zero (created (r idx))) (map fst bs)),
           tf + count_or_zero (failed (r idx)) +
             sum_list (map (\<lambda>idx. count_or_zero (failed (r idx))) (map fst bs))))"
    by (rule Cons.IH)
  have ev: "sent idx @ [Print (BatchLine idx n (get_int (created (r idx))) (get_int (failed (r idx))))] @
      (if get_int (failed (r idx)) \<noteq> 0 then item_lines (get_list (results (r idx))) else []) =
      batch_events (sent idx) idx n (r idx)"
    using count_nonzero [of "failed (r idx)"]
    by (simp add: batch_events_def get_int_count)
  have "send_batches net url token retries n (b # bs) tc tf =
      after (sent idx @ [Print (BatchLine idx n (get_int (created (r idx))) (get_int (failed (r idx))))] @
          (if get_int (failed (r idx)) \<noteq> 0 then item_lines (get_list (results (r idx))) else []))
        (send_batches net url token retries n bs
          (tc + get_int (created (r idx))) (tf + get_int (failed (r idx))))"
    using b p by (simp add: Let_def)
  also have "\<dots> = after (batch_events (sent idx) idx n (r idx))
        (send_batches net url token retries n bs
          (tc + count_or_zero (created (r idx))) (tf + count_or_zero (failed (r idx))))"
    unfolding ev by (simp only: get_int_count)
  finally show ?case using b by (simp add: ih after_def add.assoc)
qed


lemma sum_list_enumerate:
  "sum_list (map f (map fst (enumerate 1 xs))) = (\<Sum>i = 1..length xs. f i)"
proof -
  have "map fst (enumerate 1 xs) = [1..<1 + length xs]"
    by (rule map_fst_enumerate)
  moreover have "{1..<1 + length xs} = {1..length xs}"
    by auto
  ultimately show ?thesis
    by (simp only: interv_sum_list_conv_sum_set_nat set_upt)
qed

lemma post_json_example:
  "net 1 0 = Response res \<Longrightarrow>
   post_json (net 1) (rstrip_slash (arg_base_url args_example) @ ''/v1/documents:batch'')
     (arg_token args_example) docs_example (arg_retries args_example) =
   ([UrlOpen url_example ''jwt'' docs_example], Inr res)"
  by (subst post_json_response [of _ res]) (simp_all add: url_args_example, simp_all add: args_example_def)

lemma load_args_single:
  "load_documents loads_example fs_example args_single = (load_events_example, Inr docs_example)"
  by code_simp

lemma chunked_args_single:
  "chunked docs_example (arg_batch_size args_single) = Inr batches_example"
  by code_simp

lemma post_json_args_single:
  "\<forall>i<length batches_example.
     post_json (net_mixed (Suc i)) (rstrip_slash (arg_base_url args_single) @ ''/v1/documents:batch'')
       (arg_token args_single) (batches_example ! i) (arg_retries args_single) =
     (sent_example (Suc i), Inr (result_mixed (Suc i)))"
proof (intro allI impI)
  fix i
  assume "i < length batches_example"
  have u: "rstrip_slash (arg_base_url args_single) @ ''/v1/documents:batch'' = url_example"
    by code_simp
  have "post_json (net_mixed (Suc i)) url_example (arg_token args_single) (batches_example ! i)
      (arg_retries args_single) =
     ([UrlOpen url_example (arg_token args_single) (batches_example ! i)], Inr (result_mixed (Suc i)))"
    by (rule post_json_response) (simp_all add: net_mixed_def args_single_def args_example_def)
  then show "post_json (net_mixed (Suc i))
       (rstrip_slash (arg_base_url args_single) @ ''/v1/documents:batch'')
       (arg_token args_single) (batches_example ! i) (arg_retries args_single) =
     (sent_example (Suc i), Inr (result_mixed (Suc i)))"
    unfolding u by (simp add: sent_example_def args_single_def args_example_def)
qed

text \<open>
  Claim C10. Take a run that is not a dry run, with any number of batches, and let the
  service answer every batch, batch \<open>i\<close> with the response \<open>r i\<close>. Then the run does
  exactly this: after the load phase, for every batch in order, the attempts of the
  batch, the batch line, and the item lines of the response if and only if the response
  has a \<open>failed\<close> count that is not 0; then the final line. In the batch line, in the
  totals of the final line and in the exit status, a count that a response does not have
  is 0 (\<open>count_or_zero\<close>). So a response without a \<open>failed\<close> count adds no failure and
  prints no item line, whatever the other batches report, and a run whose only batch is
  answered without a \<open>failed\<close> count has exit status 0.
\<close>

theorem response_counts_and_item_lines:
  assumes load: "load_documents jl fs a = (evs, Inr docs)"
    and wet: "\<not> arg_dry_run a"
    and chunks: "chunked docs (arg_batch_size a) = Inr batches"
    and sent: "\<forall>i<length batches.
       post_json (net (Suc i)) (rstrip_slash (arg_base_url a) @ ''/v1/documents:batch'')
         (arg_token a) (batches ! i) (arg_retries a) = (sent (Suc i), Inr (r (Suc i)))"
  shows "main jl fs net a =
       (evs @
        concat (map (\<lambda>i. batch_events (sent i) i (length batches) (r i))
                  [1..<Suc (length batches)]) @
        [Print (DoneLine (\<Sum>i = 1..length batches. count_or_zero (created (r i)))
                         (\<Sum>i = 1..length batches. count_or_zero (failed (r i))))],
        Inr (if (\<Sum>i = 1..length batches. count_or_zero (failed (r i))) = 0 then 0 else 1)) \<and>
     (length batches = 1 \<and> failed (r 1) = None \<longrightarrow> exit_status (main jl fs net a) = 0)"
proof -
  let ?url = "rstrip_slash (arg_base_url a) @ ''/v1/documents:batch''"
  let ?bs = "enumerate 1 batches"
  let ?n = "length batches"
  have "\<forall>(idx, batch)\<in>set ?bs.
      post_json (net idx) ?url (arg_token a) batch (arg_retries a) = (sent idx, Inr (r idx))"
  proof (intro ballI, clarify)
    fix idx batch
    assume "(idx, batch) \<in> set ?bs"
    then have "(idx, batch) \<in> set (enumerate (Suc 0) batches)"
      by (simp only: One_nat_def)
    then have "\<exists>i<length batches. idx = Suc i \<and> batch = batches ! i"
      by (rule in_set_enumerate)
    then obtain i where "i < length batches" "idx = Suc i" "batch = batches ! i"
      by blast
    with sent show "post_json (net idx) ?url (arg_token a) batch (arg_retries a) =
        (sent idx, Inr (r idx))"
      by blast
  qed
  then have "send_batches net ?url (arg_token a) (arg_retries a) ?n ?bs 0 0 =
     (concat (map (\<lambda>idx. batch_events (sent idx) idx ?n (r idx)) (map fst ?bs)),
      Inr (0 + sum_list (map (\<lambda>idx. count_or_zero (created (r idx))) (map fst ?bs)),
           0 + sum_list (map (\<lambda>idx. count_or_zero (failed (r idx))) (map fst ?bs))))"
    by (rule send_batches_run)
  moreover have "map fst ?bs = [1..<Suc ?n]"
    using map_fst_enumerate [of 1 batches] by simp
  ultimately have "send_batches net ?url (arg_token a) (arg_retries a) ?n ?bs 0 0 =
     (concat (map (\<lambda>idx. batch_events (sent idx) idx ?n (r idx)) [1..<Suc ?n]),
      Inr (\<Sum>i = 1..?n. count_or_zero (created (r i)),
           \<Sum>i = 1..?n. count_or_zero (failed (r i))))"
    using sum_list_enumerate [of "\<lambda>idx. count_or_zero (created (r idx))" batches]
      sum_list_enumerate [of "\<lambda>idx. count_or_zero (failed (r idx))" batches]
    by (simp only: add_0)
  with load wet chunks have m: "main jl fs net a =
       (evs @
        concat (map (\<lambda>i. batch_events (sent i) i ?n (r i)) [1..<Suc ?n]) @
        [Print (DoneLine (\<Sum>i = 1..?n. count_or_zero (created (r i)))
                         (\<Sum>i = 1..?n. count_or_zero (failed (r i))))],
        Inr (if (\<Sum>i = 1..?n. count_or_zero (failed (r i))) = 0 then 0 else 1))"
    by (rule main_done)
  have "exit_status (main jl fs net a) = 0" if "?n = 1 \<and> failed (r 1) = None"
  proof -
    from that have "(\<Sum>i = 1..?n. count_or_zero (failed (r i))) = 0"
      by (simp add: count_or_zero_def)
    with m show ?thesis by (simp add: exit_status_def)
  qed
  with m show ?thesis by blast
qed


theorem response_counts_and_item_lines_witness:
  "load_documents loads_example fs_example args_single = (load_events_example, Inr docs_example) \<and>
   \<not> arg_dry_run args_single \<and>
   chunked docs_example (arg_batch_size args_single) = Inr batches_example \<and>
   net_mixed 1 0 = Response result_partial \<and> net_mixed 2 0 = Response result_omits \<and>
   failed result_partial = Some 1 \<and> failed result_omits = None \<and> created result_omits = None \<and>
   main loads_example fs_example net_mixed args_single =
     (load_events_example @
      [UrlOpen url_example ''jwt'' (batches_example ! 0), Print (BatchLine 1 2 1 1),
       Print (ItemLine (Some 1) ''malformed''),
       UrlOpen url_example ''jwt'' (batches_example ! 1), Print (BatchLine 2 2 0 0),
       Print (DoneLine 1 1)],
      Inr 1) \<and>
   length [docs_example] = 1 \<and>
   exit_status (main loads_example fs_example net_omits args_example) = 0"
proof -
  have wet: "\<not> arg_dry_run args_single" by (simp add: args_single_def args_example_def)
  note two = response_counts_and_item_lines
    [where net = net_mixed, OF load_args_single wet chunked_args_single post_json_args_single,
     THEN conjunct1]
  have n: "length batches_example = 2" by (simp add: batches_example_def)
  have r: "result_mixed 1 = result_partial" "result_mixed 2 = result_omits"
    "result_mixed (Suc 0) = result_partial" "result_mixed (Suc (Suc 0)) = result_omits"
    by (simp_all add: result_mixed_def)
  have f: "failed result_partial = Some 1" "failed result_omits = None"
    "created result_partial = Some 1" "created result_omits = None"
    by (simp_all add: result_partial_def result_omits_def)
  have nets: "net_mixed 1 0 = Response result_partial" "net_mixed 2 0 = Response result_omits"
    by (simp_all add: net_mixed_def result_mixed_def)
  have il: "item_lines (get_list (results result_partial)) = [Print (ItemLine (Some 1) ''malformed'')]"
    by (simp add: item_lines_def get_list_def result_partial_def)
  have b1: "batch_events (sent_example 1) 1 2 result_partial =
      [UrlOpen url_example ''jwt'' (batches_example ! 0), Print (BatchLine 1 2 1 1),
       Print (ItemLine (Some 1) ''malformed'')]"
    by (simp add: batch_events_def sent_example_def f il count_or_zero_def)
  have b2: "batch_events (sent_example 2) 2 2 result_omits =
      [UrlOpen url_example ''jwt'' (batches_example ! 1), Print (BatchLine 2 2 0 0)]"
    by (simp add: batch_events_def sent_example_def f count_or_zero_def)
  have upt: "[1..<Suc 2] = [1, 2]" by (simp add: upt_rec)
  have sums: "(\<Sum>i = 1..2. count_or_zero (created (result_mixed i))) = 1"
    "(\<Sum>i = 1..2. count_or_zero (failed (result_mixed i))) = 1"
    by (simp_all add: r f count_or_zero_def numeral_2_eq_2)
  from two have m: "main loads_example fs_example net_mixed args_single =
     (load_events_example @
      [UrlOpen url_example ''jwt'' (batches_example ! 0), Print (BatchLine 1 2 1 1),
       Print (ItemLine (Some 1) ''malformed''),
       UrlOpen url_example ''jwt'' (batches_example ! 1), Print (BatchLine 2 2 0 0),
       Print (DoneLine 1 1)],
      Inr 1)"
    unfolding n upt sums by (simp add: r b1 [unfolded One_nat_def] b2)
  have wet1: "\<not> arg_dry_run args_example" by (simp add: args_example_def)
  have post1: "\<forall>i<length [docs_example].
     post_json (net_omits (Suc i)) (rstrip_slash (arg_base_url args_example) @ ''/v1/documents:batch'')
       (arg_token args_example) ([docs_example] ! i) (arg_retries args_example) =
     ((\<lambda>i. [UrlOpen url_example ''jwt'' docs_example]) (Suc i), Inr ((\<lambda>i. result_omits) (Suc i)))"
    using post_json_example [of net_omits result_omits] by (simp add: net_omits_def)
  note one = response_counts_and_item_lines
    [where net = net_omits, OF load_args_example wet1 chunked_docs_example post1,
     THEN conjunct2]
  from one f(2) have e: "exit_status (main loads_example fs_example net_omits args_example) = 0"
    by simp
  from load_args_single wet chunked_args_single nets f(1,2,4) m e show ?thesis by simp
qed

end
